theory Spec2Isabelle
  imports Complex_Main "HOL-Library.Word" "HOL-Library.Log_Nat"
begin

unbundle bit_operations_syntax

section \<open>Constants of Driver.cpp\<close>

type_synonym u32 = "32 word"
type_synonym sint16 = "16 word"

definition MAX_CHANNELS :: int where
  "MAX_CHANNELS = 8"

definition RING_BUFFER_FRAMES :: nat where
  "RING_BUFFER_FRAMES = 8192"

definition TARGET_LATENCY :: u32 where
  "TARGET_LATENCY = 1024"

section \<open>Samples: IEEE-754 binary32\<close>

text \<open>
  A \<open>float\<close> of the shared segment is its 32-bit pattern: sign bit 31, biased exponent in
  bits 30..23, fraction in bits 22..0. Every pattern is a float, so there is no
  well-formedness condition. \<open>fval\<close> is what a pattern denotes; the sign of a zero is
  not kept in \<open>fval\<close>, since neither a comparison nor a conversion to an integer sees it.
\<close>

type_synonym f32 = "32 word"

datatype fval = FNaN | FInf bool | FFin real

definition f32_sign :: "f32 \<Rightarrow> bool" where
  "f32_sign w = bit w 31"

definition f32_expo :: "f32 \<Rightarrow> int" where
  "f32_expo w = uint (drop_bit 23 w AND 0xFF)"

definition f32_frac :: "f32 \<Rightarrow> int" where
  "f32_frac w = uint (w AND 0x7FFFFF)"

definition f32_mant :: "f32 \<Rightarrow> int" where
  "f32_mant w = (if f32_expo w = 0 then f32_frac w else 2 ^ 23 + f32_frac w)"

definition f32_scale :: "f32 \<Rightarrow> int" where
  "f32_scale w = max (f32_expo w) 1 - 150"

definition signed_val :: "bool \<Rightarrow> real \<Rightarrow> real" where
  "signed_val s v = (if s then - v else v)"

definition f32_decode :: "f32 \<Rightarrow> fval" where
  "f32_decode w =
     (if f32_expo w = 255 then (if f32_frac w = 0 then FInf (f32_sign w) else FNaN)
      else FFin (signed_val (f32_sign w) (of_int (f32_mant w) * 2 powi f32_scale w)))"

text \<open>The comparison \<open>a <= b\<close> of two floats: false as soon as one of them is a NaN.\<close>

fun fval_le :: "fval \<Rightarrow> fval \<Rightarrow> bool" where
  "fval_le FNaN _ = False"
| "fval_le _ FNaN = False"
| "fval_le (FInf s) (FInf t) = (s \<or> \<not> t)"
| "fval_le (FInf s) (FFin _) = s"
| "fval_le (FFin _) (FInf t) = (\<not> t)"
| "fval_le (FFin x) (FFin y) = (x \<le> y)"

text \<open>
  Rounding of the exact value \<open>M * 2^e\<close> (\<open>M\<close> not negative, the sign \<open>s\<close> apart) to the
  nearest binary32 value, ties to even. The \<open>d\<close> low bits of \<open>M\<close> that do not fit the 24
  bits of a significand, or that lie below the smallest subnormal \<open>2^-149\<close>, are dropped
  and the rest is rounded on them. A result of \<open>2^128\<close> or more is an infinity.
\<close>

definition round_shift :: "int \<Rightarrow> int \<Rightarrow> nat" where
  "round_shift M e = nat (max 0 (max (bitlen M - 24) (- 149 - e)))"

definition round_half_even :: "int \<Rightarrow> nat \<Rightarrow> int" where
  "round_half_even M d =
     (let q = M div 2 ^ d;
          r = M mod 2 ^ d
      in if 2 ^ d < 2 * r \<or> (2 * r = 2 ^ d \<and> odd q) then q + 1 else q)"

definition f32_round_mag :: "int \<Rightarrow> int \<Rightarrow> real" where
  "f32_round_mag M e =
     (let d = round_shift M e
      in of_int (round_half_even M d) * 2 powi (e + int d))"

definition f32_round :: "bool \<Rightarrow> int \<Rightarrow> int \<Rightarrow> fval" where
  "f32_round s M e =
     (let v = f32_round_mag M e
      in if 2 ^ 128 \<le> v then FInf s else FFin (signed_val s v))"

text \<open>The product \<open>a * b\<close> of two floats, as the value of the float it yields.\<close>

definition f32_mul :: "f32 \<Rightarrow> f32 \<Rightarrow> fval" where
  "f32_mul a b =
     (case f32_decode a of
        FNaN \<Rightarrow> FNaN
      | FInf s \<Rightarrow>
          (case f32_decode b of
             FNaN \<Rightarrow> FNaN
           | FInf t \<Rightarrow> FInf (s \<noteq> t)
           | FFin y \<Rightarrow> if y = 0 then FNaN else FInf (s \<noteq> f32_sign b))
      | FFin x \<Rightarrow>
          (case f32_decode b of
             FNaN \<Rightarrow> FNaN
           | FInf t \<Rightarrow> if x = 0 then FNaN else FInf (f32_sign a \<noteq> t)
           | FFin y \<Rightarrow>
               f32_round (f32_sign a \<noteq> f32_sign b) (f32_mant a * f32_mant b)
                 (f32_scale a + f32_scale b)))"

text \<open>
  \<open>static_cast<SInt16>\<close> of a float truncates towards zero; the behaviour is undefined
  (\<open>None\<close>) when the truncated value is not an SInt16, and for NaN and the infinities.
\<close>

definition trunc_toward_zero :: "real \<Rightarrow> int" where
  "trunc_toward_zero x = (if 0 \<le> x then \<lfloor>x\<rfloor> else \<lceil>x\<rceil>)"

definition float_to_SInt16 :: "fval \<Rightarrow> sint16 option" where
  "float_to_SInt16 v =
     (case v of
        FFin x \<Rightarrow>
          (let t = trunc_toward_zero x
           in if - 32768 \<le> t \<and> t \<le> 32767 then Some (word_of_int t) else None)
      | _ \<Rightarrow> None)"

text \<open>The float literals \<open>1.0f\<close>, \<open>-1.0f\<close> and \<open>32767.0f\<close>.\<close>

definition f32_one :: f32 where
  "f32_one = 0x3F800000"

definition f32_minus_one :: f32 where
  "f32_minus_one = 0xBF800000"

definition f32_32767 :: f32 where
  "f32_32767 = 0x46FFFE00"

text \<open>
  \<^verbatim>\<open>
  inline SInt16 ConvertToSInt16(float sample) {
      if (sample >= 1.0f) return 32767;
      if (sample <= -1.0f) return -32768;
      return static_cast<SInt16>(sample * 32767.0f);
  }
  \<close>
\<close>

definition ConvertToSInt16 :: "f32 \<Rightarrow> sint16 option" where
  "ConvertToSInt16 sample =
     (if fval_le (f32_decode f32_one) (f32_decode sample) then Some 32767
      else if fval_le (f32_decode sample) (f32_decode f32_minus_one) then Some (- 32768)
      else float_to_SInt16 (f32_mul sample f32_32767))"

section \<open>The shared segment and its reader\<close>

text \<open>
  The mapped segment: a 16-byte header of four 32-bit fields, then the floats. A pull
  works on one snapshot of it. \<open>None\<close> is the reader whose pointer is null.
\<close>

record segment =
  writeCursor :: u32
  channelCount :: u32
  reserved :: u32
  activeFlag :: u32
  samples :: "f32 list"

type_synonym SharedAudioBuffer = "segment option"

definition isActive :: "SharedAudioBuffer \<Rightarrow> bool" where
  "isActive p = (case p of None \<Rightarrow> False | Some seg \<Rightarrow> activeFlag seg = 1)"

definition getChannelCount :: "SharedAudioBuffer \<Rightarrow> u32" where
  "getChannelCount p = (case p of None \<Rightarrow> 2 | Some seg \<Rightarrow> channelCount seg)"

definition getSamples :: "SharedAudioBuffer \<Rightarrow> f32 list option" where
  "getSamples p = (case p of None \<Rightarrow> None | Some seg \<Rightarrow> Some (samples seg))"

definition getWritePos :: "SharedAudioBuffer \<Rightarrow> u32" where
  "getWritePos p = (case p of None \<Rightarrow> 0 | Some seg \<Rightarrow> writeCursor seg)"

section \<open>The pull: DuomicIOHandler::OnReadClientInput\<close>

text \<open>
  \<open>channelIndex\<close> is a C++ \<open>int\<close>, \<open>readPos\<close> a \<open>uint32_t\<close> that starts at 0.
\<close>

record DuomicIOHandler =
  channelIndex :: int
  readPos :: u32

definition new_DuomicIOHandler :: "int \<Rightarrow> DuomicIOHandler" where
  "new_DuomicIOHandler ch = \<lparr>channelIndex = ch, readPos = 0\<rparr>"

text \<open>\<open>memset(bytes, 0, bytesCount)\<close>, seen as SInt16 samples.\<close>

definition silence :: "u32 \<Rightarrow> sint16 list" where
  "silence numSamples = replicate (unat numSamples) 0"

text \<open>A read of \<open>shmSamples[sampleIdx]\<close>; beyond the mapped floats it is undefined.\<close>

definition read_sample :: "f32 list \<Rightarrow> u32 \<Rightarrow> f32 option" where
  "read_sample shmSamples sampleIdx =
     (if unat sampleIdx < length shmSamples then Some (shmSamples ! unat sampleIdx) else None)"

text \<open>
  The body of the copy loop at index \<open>i\<close>:
  \<^verbatim>\<open>
  uint32_t frameIdx = (readPos_ + i) % RING_BUFFER_FRAMES;
  uint32_t sampleIdx = frameIdx * inputChannels + channelIndex_;
  samples[i] = ConvertToSInt16(shmSamples[sampleIdx]);
  \<close>
\<close>

definition copy_frame :: "f32 list \<Rightarrow> u32 \<Rightarrow> int \<Rightarrow> u32 \<Rightarrow> nat \<Rightarrow> sint16 option" where
  "copy_frame shmSamples inputChannels ch rp i =
     (let frameIdx = (rp + of_nat i) mod of_nat RING_BUFFER_FRAMES;
          sampleIdx = frameIdx * inputChannels + word_of_int ch
      in case read_sample shmSamples sampleIdx of
           None \<Rightarrow> None
         | Some s \<Rightarrow> ConvertToSInt16 s)"

text \<open>
  \<^verbatim>\<open>
  if (readPos_ == 0 && writePos > TARGET_LATENCY) {
      readPos_ = writePos - TARGET_LATENCY;
  }
  \<close>
\<close>

definition seed_readPos :: "u32 \<Rightarrow> u32 \<Rightarrow> u32" where
  "seed_readPos rp writePos =
     (if rp = 0 \<and> writePos > TARGET_LATENCY then writePos - TARGET_LATENCY else rp)"

text \<open>
  \<^verbatim>\<open>
  uint32_t available = writePos - readPos_;
  if (available > RING_BUFFER_FRAMES - 512) {
      readPos_ = writePos - TARGET_LATENCY;
      available = TARGET_LATENCY;
  }
  \<close>
  The comparison is made in \<open>size_t\<close>. The result is the pair of \<open>readPos_\<close> and
  \<open>available\<close>.
\<close>

definition overrun_policy :: "u32 \<Rightarrow> u32 \<Rightarrow> u32 \<times> u32" where
  "overrun_policy rp writePos =
     (let available = writePos - rp
      in if unat available > RING_BUFFER_FRAMES - 512
         then (writePos - TARGET_LATENCY, TARGET_LATENCY)
         else (rp, available))"

text \<open>
  The rest of the call, from the underrun test on, for the \<open>readPos_\<close> and
  \<open>available\<close> it is entered with:
  \<^verbatim>\<open>
  if (writePos <= readPos_ || available < numSamples) {
      std::memset(bytes, 0, bytesCount);
      return;
  }
  uint32_t samplesToRead = std::min(numSamples, writePos - readPos_);
  for (UInt32 i = 0; i < samplesToRead; i++) { ... }
  if (samplesToRead < numSamples) {
      std::memset(samples + samplesToRead, 0, (numSamples - samplesToRead) * sizeof(SInt16));
  }
  readPos_ += samplesToRead;
  \<close>
  The loop writes \<open>samples[i]\<close> for \<open>i\<close> from 0 up; one undefined read or conversion makes
  the call undefined.
\<close>

definition deliver ::
  "DuomicIOHandler \<Rightarrow> f32 list \<Rightarrow> u32 \<Rightarrow> u32 \<Rightarrow> u32 \<Rightarrow> u32 \<times> u32 \<Rightarrow>
     (sint16 list \<times> DuomicIOHandler) option" where
  "deliver h shmSamples inputChannels writePos numSamples ra =
     (let rp = fst ra; available = snd ra
      in if writePos \<le> rp \<or> available < numSamples
         then Some (silence numSamples, h\<lparr>readPos := rp\<rparr>)
         else
           let samplesToRead = min numSamples (writePos - rp)
           in case those (map (copy_frame shmSamples inputChannels (channelIndex h) rp)
                            [0..<unat samplesToRead]) of
                None \<Rightarrow> None
              | Some block \<Rightarrow>
                  Some (block @ replicate (unat numSamples - unat samplesToRead) 0,
                        h\<lparr>readPos := rp + samplesToRead\<rparr>))"

text \<open>
  The whole callback. The host's buffer of \<open>bytesCount\<close> bytes is returned as the
  \<open>bytesCount / 2\<close> samples written to it, with the handler after the call; \<open>None\<close> is
  undefined behaviour.
\<close>

definition OnReadClientInput ::
  "DuomicIOHandler \<Rightarrow> SharedAudioBuffer \<Rightarrow> u32 \<Rightarrow> (sint16 list \<times> DuomicIOHandler) option" where
  "OnReadClientInput h buf bytesCount =
     (let numSamples = bytesCount div 2 div 1
      in if \<not> isActive buf then Some (silence numSamples, h)
         else case getSamples buf of
           None \<Rightarrow> Some (silence numSamples, h)
         | Some shmSamples \<Rightarrow>
             let writePos = getWritePos buf;
                 inputChannels = getChannelCount buf
             in if channelIndex h \<ge> sint inputChannels then Some (silence numSamples, h)
                else deliver h shmSamples inputChannels writePos numSamples
                       (overrun_policy (seed_readPos (readPos h) writePos) writePos))"


text \<open>
  A sequence of pulls on one handler, each on the snapshot of the reader it finds and for
  the byte count the host asks: the handlers after each call, in order.
\<close>

fun pulls :: "DuomicIOHandler \<Rightarrow> (SharedAudioBuffer \<times> u32) list \<Rightarrow> DuomicIOHandler list option" where
  "pulls h [] = Some []"
| "pulls h (req # rest) =
     (case OnReadClientInput h (fst req) (snd req) of
        None \<Rightarrow> None
      | Some res \<Rightarrow>
          (case pulls (snd res) rest of
             None \<Rightarrow> None
           | Some hs \<Rightarrow> Some (snd res # hs)))"
section \<open>The registry of devices\<close>

text \<open>
  An entry of \<open>g_devices\<close>. The \<open>aspl::Device\<close> of an entry and the plugin it is published to
  belong to the host library and are not part of the model; the handler is the
  \<open>DuomicIOHandler\<close> made for the entry's channel.
\<close>

record DeviceInfo =
  name :: string
  channel :: int
  handler :: DuomicIOHandler

text \<open>
  \<^verbatim>\<open>
  for (const auto& dev : g_devices) {
      if (dev.name == name) {
          return false;
      }
  }
  \<close>
\<close>

fun name_exists :: "string \<Rightarrow> DeviceInfo list \<Rightarrow> bool" where
  "name_exists nm [] = False"
| "name_exists nm (dev # devs) = (if name dev = nm then True else name_exists nm devs)"

text \<open>
  Every operation on the registry takes \<open>g_devices\<close> and returns its result with
  \<open>g_devices\<close> after the call.
\<close>

definition AddVirtualDevice :: "string \<Rightarrow> int \<Rightarrow> DeviceInfo list \<Rightarrow> bool \<times> DeviceInfo list" where
  "AddVirtualDevice nm ch g_devices =
     (if name_exists nm g_devices then (False, g_devices)
      else (True, g_devices @ [\<lparr>name = nm, channel = ch, handler = new_DuomicIOHandler ch\<rparr>]))"

text \<open>
  \<^verbatim>\<open>
  for (auto it = g_devices.begin(); it != g_devices.end(); ++it) {
      if (it->name == name) {
          g_plugin->RemoveDevice(it->device);
          g_devices.erase(it);
          return true;
      }
  }
  return false;
  \<close>
\<close>

fun RemoveVirtualDevice :: "string \<Rightarrow> DeviceInfo list \<Rightarrow> bool \<times> DeviceInfo list" where
  "RemoveVirtualDevice nm [] = (False, [])"
| "RemoveVirtualDevice nm (dev # devs) =
     (if name dev = nm then (True, devs)
      else (fst (RemoveVirtualDevice nm devs), dev # snd (RemoveVirtualDevice nm devs)))"

text \<open>Decimal output of an \<open>int\<close>, as \<open>operator<<\<close> writes it.\<close>

definition digit_char :: "nat \<Rightarrow> char" where
  "digit_char d = ''0123456789'' ! d"

function show_nat :: "nat \<Rightarrow> string" where
  "show_nat n = (if n < 10 then [digit_char n] else show_nat (n div 10) @ [digit_char (n mod 10)])"
  by pat_completeness auto
termination
  by (relation "measure id") auto

declare show_nat.simps [simp del]

definition show_int :: "int \<Rightarrow> string" where
  "show_int i = (if i < 0 then CHR ''-'' # show_nat (nat (- i)) else show_nat (nat i))"

abbreviation LF :: char where
  "LF \<equiv> CHR 0x0A"

text \<open>
  \<^verbatim>\<open>
  for (const auto& dev : g_devices) {
      ss << dev.name << ":" << dev.channel << "\n";
  }
  \<close>
\<close>

definition device_line :: "DeviceInfo \<Rightarrow> string" where
  "device_line dev = name dev @ '':'' @ show_int (channel dev) @ [LF]"

definition ListDevices :: "DeviceInfo list \<Rightarrow> string \<times> DeviceInfo list" where
  "ListDevices g_devices = (concat (map device_line g_devices), g_devices)"

section \<open>Parsing: the input streams of HandleCommand\<close>

text \<open>
  A \<open>std::istringstream\<close>: the characters not yet read and the state bits the code can
  set. \<open>isspace\<close> is the one of the "C" locale.
\<close>

record istream =
  rdbuf :: string
  eofbit :: bool
  failbit :: bool

definition good :: "istream \<Rightarrow> bool" where
  "good s = (\<not> eofbit s \<and> \<not> failbit s)"

definition isspace :: "char \<Rightarrow> bool" where
  "isspace c = (c = CHR '' '' \<or> c = CHR 0x09 \<or> c = CHR 0x0A \<or> c = CHR 0x0B \<or> c = CHR 0x0C \<or> c = CHR 0x0D)"

text \<open>
  The sentry of an input function: on a stream that is not good it sets \<open>failbit\<close>;
  otherwise, unless \<open>noskipws\<close>, it skips white space, and reaching the end there sets
  \<open>eofbit\<close> and \<open>failbit\<close>. The boolean is whether the input function goes on.
\<close>

definition sentry :: "bool \<Rightarrow> istream \<Rightarrow> bool \<times> istream" where
  "sentry noskipws s =
     (if \<not> good s then (False, s\<lparr>failbit := True\<rparr>)
      else if noskipws then (True, s)
      else let rest = dropWhile isspace (rdbuf s)
           in if rest = [] then (False, s\<lparr>rdbuf := [], eofbit := True, failbit := True\<rparr>)
              else (True, s\<lparr>rdbuf := rest\<rparr>))"

text \<open>
  \<open>iss >> str\<close>: the characters up to the next white space. \<open>None\<close> is a string left
  as it was, because the sentry failed.
\<close>

definition extract_string :: "istream \<Rightarrow> string option \<times> istream" where
  "extract_string s =
     (let (ok, s1) = sentry False s
      in if \<not> ok then (None, s1)
         else let tok = takeWhile (\<lambda>c. \<not> isspace c) (rdbuf s1);
                  rest = dropWhile (\<lambda>c. \<not> isspace c) (rdbuf s1)
              in (Some tok, s1\<lparr>rdbuf := rest, eofbit := (rest = [])\<rparr>))"

text \<open>\<open>iss >> std::ws\<close>: skips white space; reaching the end sets \<open>eofbit\<close> only.\<close>

definition ws :: "istream \<Rightarrow> istream" where
  "ws s =
     (let (ok, s1) = sentry True s
      in if \<not> ok then s1
         else let rest = dropWhile isspace (rdbuf s1)
              in s1\<lparr>rdbuf := rest, eofbit := (rest = [])\<rparr>)"

text \<open>
  \<open>std::getline(is, str, delim)\<close>: the characters before the delimiter, which is read and
  dropped. Reaching the end sets \<open>eofbit\<close>, and \<open>failbit\<close> too when nothing was read.
\<close>

definition getline :: "char \<Rightarrow> istream \<Rightarrow> string option \<times> istream" where
  "getline delim s =
     (let (ok, s1) = sentry True s
      in if \<not> ok then (None, s1)
         else let line = takeWhile (\<lambda>c. c \<noteq> delim) (rdbuf s1);
                  rest = dropWhile (\<lambda>c. c \<noteq> delim) (rdbuf s1)
              in if rest = [] then (Some line, s1\<lparr>rdbuf := [], eofbit := True, failbit := (line = [])\<rparr>)
                 else (Some line, s1\<lparr>rdbuf := tl rest\<rparr>))"

text \<open>Decimal digits and the number they write.\<close>

definition is_digit :: "char \<Rightarrow> bool" where
  "is_digit c = (c \<in> set ''0123456789'')"

definition digit_val :: "char \<Rightarrow> int" where
  "digit_val c = int (of_char c) - 48"

definition digits_val :: "string \<Rightarrow> int" where
  "digits_val ds = foldl (\<lambda>acc c. 10 * acc + digit_val c) 0 ds"

definition INT_MIN :: int where
  "INT_MIN = - 2147483648"

definition INT_MAX :: int where
  "INT_MAX = 2147483647"

text \<open>An optional sign, then the digits that follow it.\<close>

definition signed_digits :: "string \<Rightarrow> bool \<times> string" where
  "signed_digits b =
     (case b of
        [] \<Rightarrow> (False, [])
      | c # cs \<Rightarrow>
          if c = CHR ''-'' then (True, takeWhile is_digit cs)
          else if c = CHR ''+'' then (False, takeWhile is_digit cs)
          else (False, takeWhile is_digit b))"

text \<open>
  \<open>iss >> channel\<close> for an \<open>int\<close>: \<open>None\<close> is a variable left as it was (the sentry
  failed). Without a digit the value stored is 0; a number beyond \<open>int\<close> is stored as the
  nearest bound. The stream is not read again after it.
\<close>

definition extract_int :: "istream \<Rightarrow> int option" where
  "extract_int s =
     (let (ok, s1) = sentry False s
      in if \<not> ok then None
         else let (neg, ds) = signed_digits (rdbuf s1)
              in if ds = [] then Some 0
                 else let v = (if neg then - digits_val ds else digits_val ds)
                      in Some (max INT_MIN (min INT_MAX v)))"

section \<open>HandleCommand\<close>

text \<open>
  The response and \<open>g_devices\<close> after the command. \<open>channel\<close> is declared without a
  value: when \<open>iss >> channel\<close> leaves it so and the name is not empty, the test of the
  channel reads an indeterminate \<open>int\<close>, which is undefined (\<open>None\<close>).
\<close>

definition HandleCommand :: "string \<Rightarrow> DeviceInfo list \<Rightarrow> (string \<times> DeviceInfo list) option" where
  "HandleCommand cmd g_devices =
     (let iss = \<lparr>rdbuf = cmd, eofbit = False, failbit = False\<rparr>;
          (command_read, iss1) = extract_string iss;
          command = (case command_read of None \<Rightarrow> [] | Some c \<Rightarrow> c)
      in if command = ''ADD'' then
           let (name_read, iss2) = getline CHR '':'' (ws iss1);
               nm = (case name_read of None \<Rightarrow> [] | Some n \<Rightarrow> n);
               channel_read = extract_int iss2
           in if nm = [] then Some (''ERROR:Invalid name'' @ [LF], g_devices)
              else case channel_read of
                     None \<Rightarrow> None
                   | Some ch \<Rightarrow>
                       if ch < 0 \<or> ch \<ge> MAX_CHANNELS
                       then Some (''ERROR:Invalid channel'' @ [LF], g_devices)
                       else let (added, g') = AddVirtualDevice nm ch g_devices
                            in if added then Some (''OK:Device added'' @ [LF], g')
                               else Some (''ERROR:Device already exists'' @ [LF], g')
         else if command = ''REMOVE'' then
           let (name_read, iss2) = getline LF (ws iss1);
               nm = (case name_read of None \<Rightarrow> [] | Some n \<Rightarrow> n)
           in if nm = [] then Some (''ERROR:Invalid name'' @ [LF], g_devices)
              else let (removed, g') = RemoveVirtualDevice nm g_devices
                   in if removed then Some (''OK:Device removed'' @ [LF], g')
                      else Some (''ERROR:Device not found'' @ [LF], g')
         else if command = ''LIST'' then
           Some (''OK'' @ [LF] @ fst (ListDevices g_devices), snd (ListDevices g_devices))
         else if command = ''PING'' then Some (''PONG'' @ [LF], g_devices)
         else Some (''ERROR:Unknown command'' @ [LF], g_devices))"

section \<open>ReadConfig\<close>

text \<open>
  The lines \<open>std::getline(file, line)\<close> yields one after the other: split at \<open>LF\<close>, with
  no line after a final \<open>LF\<close>. \<open>cur\<close> is the line being read.
\<close>

fun getlines :: "string \<Rightarrow> string \<Rightarrow> string list" where
  "getlines cur [] = (if cur = [] then [] else [cur])"
| "getlines cur (c # cs) = (if c = LF then cur # getlines [] cs else getlines (cur @ [c]) cs)"

text \<open>
  \<open>std::stoi\<close>: white space, an optional sign, digits; what follows them is ignored. It
  throws \<open>std::invalid_argument\<close> when there is no digit and \<open>std::out_of_range\<close> when the
  number is not an \<open>int\<close>.
\<close>

datatype stoi_error = invalid_argument | out_of_range

definition stoi :: "string \<Rightarrow> stoi_error + int" where
  "stoi str =
     (let (neg, ds) = signed_digits (dropWhile isspace str)
      in if ds = [] then Inl invalid_argument
         else let v = (if neg then - digits_val ds else digits_val ds)
              in if v < INT_MIN \<or> INT_MAX < v then Inl out_of_range else Inr v)"

text \<open>
  The body of the loop over the lines, for the devices collected so far:
  \<^verbatim>\<open>
  if (line.empty() || line[0] == '#') continue;
  size_t colonPos = line.find(':');
  if (colonPos != std::string::npos) {
      std::string name = line.substr(0, colonPos);
      int channel = std::stoi(line.substr(colonPos + 1));
      if (channel >= 0 && channel < (int)MAX_CHANNELS) {
          devices.push_back({name, channel});
      }
  }
  \<close>
  Nothing in \<open>ReadConfig\<close> or its caller catches what \<open>std::stoi\<close> throws.
\<close>

fun read_lines :: "string list \<Rightarrow> (string \<times> int) list \<Rightarrow> stoi_error + (string \<times> int) list" where
  "read_lines [] devices = Inr devices"
| "read_lines (line # rest) devices =
     (if line = [] \<or> hd line = CHR ''#'' then read_lines rest devices
      else if CHR '':'' \<in> set line then
        (case stoi (tl (dropWhile (\<lambda>c. c \<noteq> CHR '':'') line)) of
           Inl e \<Rightarrow> Inl e
         | Inr ch \<Rightarrow>
             if ch \<ge> 0 \<and> ch < MAX_CHANNELS
             then read_lines rest (devices @ [(takeWhile (\<lambda>c. c \<noteq> CHR '':'') line, ch)])
             else read_lines rest devices)
      else read_lines rest devices)"

definition default_devices :: "(string \<times> int) list" where
  "default_devices = [(''duomic L'', 0), (''duomic R'', 1)]"

text \<open>
  The file is its content, or \<open>None\<close> when it cannot be opened. The result is the list of
  devices, or the exception that leaves \<open>ReadConfig\<close>.
\<close>

definition ReadConfig :: "string option \<Rightarrow> stoi_error + (string \<times> int) list" where
  "ReadConfig file =
     (case file of
        None \<Rightarrow> Inr default_devices
      | Some content \<Rightarrow>
          (case read_lines (getlines [] content) [] of
             Inl e \<Rightarrow> Inl e
           | Inr devices \<Rightarrow> Inr (if devices = [] then default_devices else devices)))"

text \<open>
  The specification's reading of one line of the file: a line that is not blank, is not
  a comment and is a \<open>name:channelIndex\<close> pair with a channel index in
  \<open>[0, MAX_CHANNELS)\<close> gives an endpoint; any other line gives none. The second
  definition says which lines make \<open>std::stoi\<close> throw.
\<close>

definition spec_config_entry :: "string \<Rightarrow> (string \<times> int) option" where
  "spec_config_entry line =
     (if line = [] \<or> hd line = CHR ''#'' \<or> CHR '':'' \<notin> set line then None
      else case stoi (tl (dropWhile (\<lambda>c. c \<noteq> CHR '':'') line)) of
             Inl e \<Rightarrow> None
           | Inr ch \<Rightarrow>
               if 0 \<le> ch \<and> ch < MAX_CHANNELS
               then Some (takeWhile (\<lambda>c. c \<noteq> CHR '':'') line, ch)
               else None)"

definition stoi_throws :: "string \<Rightarrow> bool" where
  "stoi_throws line =
     (line \<noteq> [] \<and> hd line \<noteq> CHR ''#'' \<and> CHR '':'' \<in> set line \<and>
      (case stoi (tl (dropWhile (\<lambda>c. c \<noteq> CHR '':'') line)) of Inl e \<Rightarrow> True | Inr ch \<Rightarrow> False))"

section \<open>Properties of the sample conversion\<close>

lemma rhe_lower: "M div 2 ^ d \<le> round_half_even M d"
  by (simp add: round_half_even_def Let_def)

lemma rhe_upper_one: "round_half_even M d \<le> M div 2 ^ d + 1"
  by (simp add: round_half_even_def Let_def)

lemma rhe_exact: "M mod 2 ^ d = 0 \<Longrightarrow> round_half_even M d = M div 2 ^ d"
  by (simp add: round_half_even_def Let_def)

lemma rhe_mono:
  assumes "M1 \<le> M2"
  shows "round_half_even M1 d \<le> round_half_even M2 d"
proof -
  let ?P = "(2::int) ^ d"
  have P: "0 < ?P" by simp
  have q: "M1 div ?P \<le> M2 div ?P"
    using assms P by (rule zdiv_mono1)
  show ?thesis
  proof (cases "M1 div ?P = M2 div ?P")
    case True
    have "M1 mod ?P = M1 - ?P * (M1 div ?P)"
      by (simp add: minus_mult_div_eq_mod)
    moreover have "M2 mod ?P = M2 - ?P * (M2 div ?P)"
      by (simp add: minus_mult_div_eq_mod)
    ultimately have "M1 mod ?P \<le> M2 mod ?P"
      using assms True by simp
    with True show ?thesis
      by (auto simp: round_half_even_def Let_def)
  next
    case False
    with q have "M1 div ?P + 1 \<le> M2 div ?P" by linarith
    with rhe_upper_one [of M1 d] rhe_lower [of M2 d] show ?thesis by linarith
  qed
qed

lemma rhe_scale: "round_half_even (M * 2 ^ j) (d + j) = round_half_even M d"
proof -
  have d: "(M * 2 ^ j) div 2 ^ (d + j) = M div 2 ^ d"
    by (simp add: power_add)
  have m: "(M * 2 ^ j) mod 2 ^ (d + j) = (M mod 2 ^ d) * 2 ^ j"
    by (simp add: power_add mult_mod_left mult.commute)
  have "((2::int) ^ (d + j) < 2 * ((M mod 2 ^ d) * 2 ^ j)) = (2 ^ d < 2 * (M mod 2 ^ d))"
    by (simp add: power_add)
  moreover have "(2 * ((M mod 2 ^ d) * 2 ^ j) = (2::int) ^ (d + j)) = (2 * (M mod 2 ^ d) = 2 ^ d)"
    by (simp add: power_add)
  ultimately show ?thesis
    unfolding round_half_even_def Let_def d m by simp
qed

lemma rhe_upper:
  assumes "0 \<le> M" and "M < 2 ^ (k + d)"
  shows "round_half_even M d \<le> 2 ^ k"
proof -
  let ?P = "(2::int) ^ d"
  have "M div ?P < 2 ^ k"
  proof (rule ccontr)
    assume "\<not> M div ?P < 2 ^ k"
    then have "?P * 2 ^ k \<le> ?P * (M div ?P)"
      by (intro mult_left_mono) simp_all
    also have "?P * (M div ?P) = M - M mod ?P"
      by (simp add: minus_mod_eq_mult_div)
    also have "\<dots> \<le> M" by simp
    finally show False
      using assms(2) by (simp add: power_add mult.commute)
  qed
  with rhe_upper_one [of M d] show ?thesis by linarith
qed

lemma rhe_nonneg: "0 \<le> M \<Longrightarrow> 0 \<le> round_half_even M d"
  using rhe_lower [of M d] by (smt (verit) pos_imp_zdiv_nonneg_iff zero_less_power)


lemma rhe_zero: "round_half_even 0 d = 0"
  by (simp add: round_half_even_def)

lemma round_mag_value:
  "f32_round_mag M e = of_int (round_half_even M (round_shift M e) * 2 ^ round_shift M e) * 2 powi e"
  by (simp add: f32_round_mag_def Let_def power_int_add)

lemma round_mag_exact:
  assumes "M mod 2 ^ round_shift M e = 0"
  shows "f32_round_mag M e = of_int M * 2 powi e"
proof -
  have "round_half_even M (round_shift M e) * 2 ^ round_shift M e = M"
    using assms by (simp add: rhe_exact mod_0_imp_dvd)
  then show ?thesis by (simp only: round_mag_value)
qed

lemma round_mag_nonneg: "0 \<le> M \<Longrightarrow> 0 \<le> f32_round_mag M e"
  unfolding round_mag_value
  by (intro mult_nonneg_nonneg) (simp_all add: rhe_nonneg)

lemma bitlen_mono: "M1 \<le> M2 \<Longrightarrow> bitlen M1 \<le> bitlen M2"
  by (simp add: bitlen_def floorlog_mono)

lemma round_shift_mono: "M1 \<le> M2 \<Longrightarrow> round_shift M1 e \<le> round_shift M2 e"
  using bitlen_mono [of M1 M2] by (simp add: round_shift_def)

lemma round_mag_mono:
  assumes "0 \<le> M1" and "M1 \<le> M2"
  shows "f32_round_mag M1 e \<le> f32_round_mag M2 e"
proof -
  let ?d1 = "round_shift M1 e" and ?d2 = "round_shift M2 e"
  have d: "?d1 \<le> ?d2" using assms(2) by (rule round_shift_mono)
  have "round_half_even M1 ?d1 * 2 ^ ?d1 \<le> round_half_even M2 ?d2 * 2 ^ ?d2"
  proof (cases "?d1 = ?d2")
    case True
    with rhe_mono [OF assms(2), of ?d2] show ?thesis by simp
  next
    case False
    with d have lt: "?d1 < ?d2" by simp
    have "bitlen M1 - 24 \<le> int ?d1"
      by (simp add: round_shift_def)
    then have "bitlen M1 \<le> int (24 + ?d1)" by simp
    then have "M1 < 2 ^ (24 + ?d1)"
      by (simp add: bitlen_le_iff_power nat_add_distrib)
    from rhe_upper [OF assms(1) this] have "round_half_even M1 ?d1 * 2 ^ ?d1 \<le> 2 ^ 24 * 2 ^ ?d1"
      by (intro mult_right_mono) simp_all
    also have "\<dots> = (2::int) ^ (24 + ?d1)" by (simp add: power_add)
    also have "\<dots> \<le> 2 ^ (23 + ?d2)"
      using lt by (intro power_increasing) simp_all
    also have "\<dots> \<le> round_half_even M2 ?d2 * 2 ^ ?d2"
    proof -
      have "int ?d2 = bitlen M2 - 24"
        using lt by (simp add: round_shift_def max_def split: if_splits)
      then have b: "bitlen M2 = int (24 + ?d2)" by simp
      then have "0 < bitlen M2" by simp
      then have "0 < M2" using bitlen_eq_zero_iff [of M2] bitlen_nonneg [of M2] by linarith
      from bitlen_bounds [OF this] b have "2 ^ (23 + ?d2) \<le> M2"
        by (simp add: nat_add_distrib)
      have "(2::int) ^ 23 = 2 ^ (23 + ?d2) div 2 ^ ?d2"
        by (simp add: power_add)
      also have "\<dots> \<le> M2 div 2 ^ ?d2"
        using \<open>2 ^ (23 + ?d2) \<le> M2\<close> by (intro zdiv_mono1) simp_all
      also have "\<dots> \<le> round_half_even M2 ?d2" by (rule rhe_lower)
      finally have "(2::int) ^ 23 * 2 ^ ?d2 \<le> round_half_even M2 ?d2 * 2 ^ ?d2"
        by (intro mult_right_mono) simp_all
      then show ?thesis by (simp add: power_add)
    qed
    finally show ?thesis .
  qed
  then have "(of_int (round_half_even M1 ?d1 * 2 ^ ?d1) :: real) \<le> of_int (round_half_even M2 ?d2 * 2 ^ ?d2)"
    by (simp only: of_int_le_iff)
  then show ?thesis
    unfolding round_mag_value by (intro mult_right_mono) simp_all
qed

lemma round_mag_scale:
  assumes "0 \<le> M"
  shows "f32_round_mag (M * 2 ^ j) (e - int j) = f32_round_mag M e"
proof (cases "M = 0")
  case True
  then show ?thesis by (simp add: round_mag_value rhe_zero)
next
  case False
  with assms have pos: "0 < M" by simp
  then have bl: "bitlen (M * 2 ^ j) = bitlen M + int j" by simp
  let ?c = "max (bitlen M - 24) (- 149 - e)"
  have "max (bitlen (M * 2 ^ j) - 24) (- 149 - (e - int j)) = ?c + int j"
    unfolding bl by linarith
  then have d': "round_shift (M * 2 ^ j) (e - int j) = nat (max 0 (?c + int j))"
    by (simp only: round_shift_def)
  have d: "round_shift M e = nat (max 0 ?c)"
    by (simp add: round_shift_def)
  show ?thesis
  proof (cases "0 \<le> ?c")
    case True
    then have e: "round_shift (M * 2 ^ j) (e - int j) = round_shift M e + j"
      unfolding d d' by (simp add: nat_add_distrib)
    show ?thesis
      unfolding round_mag_value e rhe_scale
      by (simp add: power_add power_int_diff)
  next
    case False
    then have neg: "?c < 0" by linarith
    then have "max 0 ?c = 0" by linarith
    then have z: "round_shift M e = 0" unfolding d by (simp only: nat_0)
    from neg have "max 0 (?c + int j) \<le> int j" by linarith
    then have le: "round_shift (M * 2 ^ j) (e - int j) \<le> j" unfolding d' by linarith
    have "(2::int) ^ round_shift (M * 2 ^ j) (e - int j) dvd 2 ^ j"
      using le by (rule le_imp_power_dvd)
    then have "(2::int) ^ round_shift (M * 2 ^ j) (e - int j) dvd M * 2 ^ j"
      by (rule dvd_mult)
    then have "(M * 2 ^ j) mod 2 ^ round_shift (M * 2 ^ j) (e - int j) = 0"
      by simp
    from round_mag_exact [OF this] have "f32_round_mag (M * 2 ^ j) (e - int j) = of_int M * 2 powi e"
      by (simp add: power_int_diff)
    moreover have "f32_round_mag M e = of_int M * 2 powi e"
      by (rule round_mag_exact) (simp add: z)
    ultimately show ?thesis by simp
  qed
qed

lemma round_mag_mono_value:
  assumes "0 \<le> M1" and "0 \<le> M2"
    and "of_int M1 * 2 powi e1 \<le> (of_int M2 * 2 powi e2 :: real)"
  shows "f32_round_mag M1 e1 \<le> f32_round_mag M2 e2"
proof -
  define e0 where "e0 = min e1 e2"
  define j1 where "j1 = nat (e1 - e0)"
  define j2 where "j2 = nat (e2 - e0)"
  have e1: "e1 - int j1 = e0" and e2: "e2 - int j2 = e0"
    by (simp_all add: j1_def j2_def e0_def)
  have v1: "(of_int (M1 * 2 ^ j1) :: real) * 2 powi e0 = of_int M1 * 2 powi e1"
    unfolding e1 [symmetric] by (simp add: power_int_diff)
  have v2: "(of_int (M2 * 2 ^ j2) :: real) * 2 powi e0 = of_int M2 * 2 powi e2"
    unfolding e2 [symmetric] by (simp add: power_int_diff)
  have "(of_int (M1 * 2 ^ j1) :: real) * 2 powi e0 \<le> of_int (M2 * 2 ^ j2) * 2 powi e0"
    using assms(3) by (simp only: v1 v2)
  moreover have "(0::real) < 2 powi e0" by simp
  ultimately have "(of_int (M1 * 2 ^ j1) :: real) \<le> of_int (M2 * 2 ^ j2)"
    by (simp only: mult_le_cancel_right_pos)
  then have le: "M1 * 2 ^ j1 \<le> M2 * 2 ^ j2"
    by (simp only: of_int_le_iff)
  have "0 \<le> M1 * 2 ^ j1" using assms(1) by simp
  from round_mag_mono [OF this le, of e0]
  have "f32_round_mag (M1 * 2 ^ j1) (e1 - int j1) \<le> f32_round_mag (M2 * 2 ^ j2) (e2 - int j2)"
    by (simp only: e1 e2)
  then show ?thesis
    by (simp only: round_mag_scale [OF assms(1)] round_mag_scale [OF assms(2)])
qed


lemma f32_32767_fields:
  "f32_decode f32_32767 = FFin 32767 \<and> f32_mant f32_32767 = 16776704 \<and>
   f32_scale f32_32767 = - 9 \<and> \<not> f32_sign f32_32767"
  by code_simp

lemma f32_one_decode: "f32_decode f32_one = FFin 1"
  by code_simp

lemma f32_minus_one_decode: "f32_decode f32_minus_one = FFin (- 1)"
  by code_simp

lemma round_mag_32767: "f32_round_mag 32767 0 = 32767"
  by code_simp

lemma f32_mant_nonneg: "0 \<le> f32_mant w"
  by (simp add: f32_mant_def f32_frac_def)

lemma decode_FFin:
  "f32_decode w = FFin v \<Longrightarrow> v = signed_val (f32_sign w) (of_int (f32_mant w) * 2 powi f32_scale w)"
  by (auto simp: f32_decode_def split: if_splits)

lemma trunc_mono: "x \<le> y \<Longrightarrow> trunc_toward_zero x \<le> trunc_toward_zero y"
proof -
  assume xy: "x \<le> y"
  have "\<lfloor>x\<rfloor> \<le> \<lfloor>y\<rfloor>" using xy by (rule floor_mono)
  moreover have "\<lceil>x\<rceil> \<le> \<lceil>y\<rceil>" using xy by (rule ceiling_mono)
  moreover have "\<lfloor>y\<rfloor> \<le> \<lceil>y\<rceil>" by (rule floor_le_ceiling)
  moreover have "0 \<le> y \<Longrightarrow> \<not> 0 \<le> x \<Longrightarrow> \<lceil>x\<rceil> \<le> \<lfloor>y\<rfloor>"
  proof -
    assume "0 \<le> y" "\<not> 0 \<le> x"
    then have "\<lceil>x\<rceil> \<le> 0" "0 \<le> \<lfloor>y\<rfloor>" by (simp_all add: ceiling_le_iff)
    then show ?thesis by linarith
  qed
  ultimately show ?thesis
    using xy by (auto simp: trunc_toward_zero_def)
qed

lemma trunc_of_int: "trunc_toward_zero (of_int n) = n"
  by (simp add: trunc_toward_zero_def)

text \<open>The product with \<open>32767.0f\<close> of a float of magnitude below 1.\<close>

lemma mul_32767_finite:
  assumes "f32_decode w = FFin v" and "- 1 < v" and "v < 1"
  shows "f32_mul w f32_32767 =
      FFin (signed_val (f32_sign w) (f32_round_mag (f32_mant w * 32767) (f32_scale w))) \<and>
    f32_round_mag (f32_mant w * 32767) (f32_scale w) \<le> 32767"
proof -
  let ?m = "f32_mant w" and ?e = "f32_scale w"
  let ?P = "f32_round_mag (?m * 32767) ?e"
  have m: "0 \<le> ?m" by (rule f32_mant_nonneg)
  have mag: "of_int ?m * 2 powi ?e < (1::real)"
    using decode_FFin [OF assms(1)] assms(2,3) by (auto simp: signed_val_def split: if_splits)
  have "of_int (?m * 32767) * 2 powi ?e = 32767 * (of_int ?m * 2 powi ?e :: real)"
    by simp
  also have "\<dots> \<le> 32767 * 1"
    using mag by (intro mult_left_mono) simp_all
  finally have "of_int (?m * 32767) * 2 powi ?e \<le> (of_int 32767 * 2 powi 0 :: real)"
    by simp
  from round_mag_mono_value [OF _ _ this] m have b: "?P \<le> 32767"
    by (simp add: round_mag_32767)
  have "?m * 16776704 = (?m * 32767) * 2 ^ 9" by simp
  then have "f32_round_mag (?m * 16776704) (?e + - 9) = f32_round_mag ((?m * 32767) * 2 ^ 9) (?e - int 9)"
    by (simp only: of_nat_numeral diff_conv_add_uminus)
  also have "\<dots> = ?P"
    using m by (intro round_mag_scale) simp
  finally have r: "f32_round_mag (?m * 16776704) (?e + - 9) = ?P" .
  have "\<not> (2::real) ^ 128 \<le> ?P"
    using b by simp
  with b r show ?thesis
    using assms(1) f32_32767_fields
    by (simp add: f32_mul_def f32_round_def Let_def)
qed


lemma sint_word_of_int_16:
  "- 32768 \<le> t \<Longrightarrow> t \<le> 32767 \<Longrightarrow> sint (word_of_int t :: sint16) = t"
  by (simp add: sint_sbintrunc' signed_take_bit_int_eq_self)

lemma sint16_range: "- 32768 \<le> sint (a::sint16) \<and> sint a \<le> 32767"
  using sint_ge [of a] sint_lt [of a] by simp

lemma round_mag_zero: "f32_round_mag 0 e = 0"
  by (simp add: round_mag_value rhe_zero)

lemma convert_mid:
  assumes "f32_decode w = FFin v" and "- 1 < v" and "v < 1"
  shows "\<exists>a. ConvertToSInt16 w = Some a \<and>
    sint a = trunc_toward_zero
      (signed_val (f32_sign w) (f32_round_mag (f32_mant w * 32767) (f32_scale w)))"
proof -
  let ?P = "f32_round_mag (f32_mant w * 32767) (f32_scale w)"
  let ?rv = "signed_val (f32_sign w) ?P"
  from mul_32767_finite [OF assms] have mul: "f32_mul w f32_32767 = FFin ?rv" and hi: "?P \<le> 32767"
    by simp_all
  have lo: "0 \<le> ?P"
    by (intro round_mag_nonneg mult_nonneg_nonneg f32_mant_nonneg) simp
  have r1: "of_int (- 32767) \<le> ?rv" and r2: "?rv \<le> of_int 32767"
    using lo hi by (simp_all add: signed_val_def)
  have "trunc_toward_zero (of_int (- 32767)) \<le> trunc_toward_zero ?rv"
    using r1 by (rule trunc_mono)
  moreover have "trunc_toward_zero ?rv \<le> trunc_toward_zero (of_int 32767)"
    using r2 by (rule trunc_mono)
  ultimately have t: "- 32767 \<le> trunc_toward_zero ?rv" "trunc_toward_zero ?rv \<le> 32767"
    by (simp_all only: trunc_of_int)
  then have "sint (word_of_int (trunc_toward_zero ?rv) :: sint16) = trunc_toward_zero ?rv"
    by (intro sint_word_of_int_16) simp_all
  moreover have "ConvertToSInt16 w = Some (word_of_int (trunc_toward_zero ?rv))"
    using assms t
    by (simp add: ConvertToSInt16_def f32_one_decode f32_minus_one_decode mul float_to_SInt16_def)
  ultimately show ?thesis by simp
qed

lemma convert_hi:
  assumes "fval_le (f32_decode f32_one) (f32_decode w)"
  shows "ConvertToSInt16 w = Some 32767"
  using assms by (simp add: ConvertToSInt16_def)

lemma convert_lo:
  assumes "fval_le (f32_decode w) (f32_decode f32_minus_one)"
  shows "ConvertToSInt16 w = Some (- 32768)"
proof -
  have "\<not> fval_le (f32_decode f32_one) (f32_decode w)"
    using assms unfolding f32_one_decode f32_minus_one_decode
    by (cases "f32_decode w") auto
  with assms show ?thesis by (simp add: ConvertToSInt16_def)
qed

lemma rounded_product_mono:
  assumes "f32_decode x = FFin vx" and "f32_decode y = FFin vy" and "vx \<le> vy"
  shows "signed_val (f32_sign x) (f32_round_mag (f32_mant x * 32767) (f32_scale x))
       \<le> signed_val (f32_sign y) (f32_round_mag (f32_mant y * 32767) (f32_scale y))"
proof -
  let ?ax = "of_int (f32_mant x) * 2 powi f32_scale x :: real"
  let ?ay = "of_int (f32_mant y) * 2 powi f32_scale y :: real"
  let ?Px = "f32_round_mag (f32_mant x * 32767) (f32_scale x)"
  let ?Py = "f32_round_mag (f32_mant y * 32767) (f32_scale y)"
  have mx: "0 \<le> f32_mant x * 32767" and my: "0 \<le> f32_mant y * 32767"
    using f32_mant_nonneg [of x] f32_mant_nonneg [of y] by simp_all
  have ax: "0 \<le> ?ax" and ay: "0 \<le> ?ay"
    using f32_mant_nonneg [of x] f32_mant_nonneg [of y] by simp_all
  have Px: "0 \<le> ?Px" and Py: "0 \<le> ?Py"
    using mx my by (simp_all only: round_mag_nonneg)
  have up: "?Px \<le> ?Py" if "?ax \<le> ?ay"
  proof -
    from that have "32767 * ?ax \<le> 32767 * ?ay" by simp
    then have "of_int (f32_mant x * 32767) * 2 powi f32_scale x
        \<le> (of_int (f32_mant y * 32767) * 2 powi f32_scale y :: real)"
      by (simp add: mult.commute mult.left_commute)
    with mx my show ?thesis by (rule round_mag_mono_value)
  qed
  have down: "?Py \<le> ?Px" if "?ay \<le> ?ax"
  proof -
    from that have "32767 * ?ay \<le> 32767 * ?ax" by simp
    then have "of_int (f32_mant y * 32767) * 2 powi f32_scale y
        \<le> (of_int (f32_mant x * 32767) * 2 powi f32_scale x :: real)"
      by (simp add: mult.commute mult.left_commute)
    with my mx show ?thesis by (rule round_mag_mono_value)
  qed
  have vx: "vx = signed_val (f32_sign x) ?ax" and vy: "vy = signed_val (f32_sign y) ?ay"
    using assms(1,2) by (simp_all only: decode_FFin)
  show ?thesis
  proof (cases "f32_sign x")
    case sx: True
    show ?thesis
    proof (cases "f32_sign y")
      case True
      with sx vx vy assms(3) have "?ay \<le> ?ax" by (simp add: signed_val_def)
      from down [OF this] sx True show ?thesis by (simp add: signed_val_def)
    next
      case False
      with sx Px Py show ?thesis by (simp add: signed_val_def)
    qed
  next
    case sx: False
    show ?thesis
    proof (cases "f32_sign y")
      case True
      with sx vx vy assms(3) have "?ax \<le> - ?ay" by (simp add: signed_val_def)
      with ax ay have "?ax = 0" "?ay = 0" by linarith+
      then have "f32_mant x = 0" "f32_mant y = 0" by simp_all
      then show ?thesis by (simp add: round_mag_zero signed_val_def)
    next
      case False
      with sx vx vy assms(3) have "?ax \<le> ?ay" by (simp add: signed_val_def)
      from up [OF this] sx False show ?thesis by (simp add: signed_val_def)
    qed
  qed
qed

lemma convert_defined:
  assumes "f32_decode w \<noteq> FNaN"
  shows "\<exists>a. ConvertToSInt16 w = Some a"
proof (cases "f32_decode w")
  case FNaN
  with assms show ?thesis by simp
next
  case (FInf s)
  then show ?thesis
    using convert_hi [of w] convert_lo [of w]
    by (cases s) (auto simp: f32_one_decode f32_minus_one_decode)
next
  case (FFin v)
  consider "1 \<le> v" | "v \<le> - 1" | "- 1 < v" "v < 1" by linarith
  then show ?thesis
  proof cases
    case 1
    with FFin convert_hi [of w] show ?thesis by (simp add: f32_one_decode)
  next
    case 2
    with FFin convert_lo [of w] show ?thesis by (simp add: f32_minus_one_decode)
  next
    case 3
    with convert_mid [OF FFin] show ?thesis by blast
  qed
qed

lemma convert_mono:
  assumes "fval_le (f32_decode x) (f32_decode y)"
  shows "\<exists>a b. ConvertToSInt16 x = Some a \<and> ConvertToSInt16 y = Some b \<and> sint a \<le> sint b"
proof (cases "fval_le (f32_decode f32_one) (f32_decode y)")
  case True
  have xy: "f32_decode x \<noteq> FNaN"
    using assms by (cases "f32_decode x") auto
  have "\<exists>a. ConvertToSInt16 x = Some a"
    using xy by (rule convert_defined)
  then obtain a where a: "ConvertToSInt16 x = Some a" ..
  moreover have "ConvertToSInt16 y = Some 32767" using True by (rule convert_hi)
  moreover have "sint a \<le> sint (32767 :: sint16)"
    using sint16_range [of a] by simp
  ultimately show ?thesis by blast
next
  case yhi: False
  show ?thesis
  proof (cases "fval_le (f32_decode x) (f32_decode f32_minus_one)")
    case True
    have xy: "f32_decode y \<noteq> FNaN"
      using assms by (cases "f32_decode x"; cases "f32_decode y") auto
    have "\<exists>b. ConvertToSInt16 y = Some b"
      using xy by (rule convert_defined)
    then obtain b where b: "ConvertToSInt16 y = Some b" ..
    moreover have "ConvertToSInt16 x = Some (- 32768)" using True by (rule convert_lo)
    moreover have "sint (- 32768 :: sint16) \<le> sint b"
      using sint16_range [of b] by simp
    ultimately show ?thesis by blast
  next
    case xlo: False
    from assms yhi xlo obtain vx vy where dx: "f32_decode x = FFin vx" and dy: "f32_decode y = FFin vy"
      and le: "vx \<le> vy" and y1: "vy < 1" and x1: "- 1 < vx"
      unfolding f32_one_decode f32_minus_one_decode
      by (cases "f32_decode x"; cases "f32_decode y") auto
    then have x2: "vx < 1" and y2: "- 1 < vy" by linarith+
    from convert_mid [OF dx x1 x2] convert_mid [OF dy y2 y1]
      trunc_mono [OF rounded_product_mono [OF dx dy le]]
    show ?thesis by auto
  qed
qed


lemma convert_zero:
  assumes "f32_decode w = FFin 0"
  shows "ConvertToSInt16 w = Some 0"
proof -
  from decode_FFin [OF assms] have "of_int (f32_mant w) * 2 powi f32_scale w = (0::real)"
    by (simp add: signed_val_def split: if_splits)
  then have m: "f32_mant w = 0" by simp
  from convert_mid [OF assms] obtain a where a: "ConvertToSInt16 w = Some a"
    and "sint a = trunc_toward_zero
      (signed_val (f32_sign w) (f32_round_mag (f32_mant w * 32767) (f32_scale w)))"
    by auto
  then have "sint a = 0"
    by (simp add: m round_mag_zero signed_val_def trunc_toward_zero_def)
  then have "sint a = sint (0::sint16)" by simp
  then have "a = 0" by (rule signed_word_eqI)
  with a show ?thesis by simp
qed

text \<open>
  C5. The conversion is monotone: for floats \<open>x <= y\<close> (so neither is a NaN) both
  conversions are defined and the one of \<open>x\<close> is at most the one of \<open>y\<close>, as signed
  numbers. Every input \<open>>= 1.0\<close> gives 32767, the greatest SInt16; every input \<open><= -1.0\<close>
  gives -32768, the least; and a zero of either sign gives 0.
\<close>

theorem ConvertToSInt16_monotone_clipping:
  "(fval_le (f32_decode x) (f32_decode y) \<longrightarrow>
      (\<exists>a b. ConvertToSInt16 x = Some a \<and> ConvertToSInt16 y = Some b \<and> sint a \<le> sint b)) \<and>
   (fval_le (f32_decode f32_one) (f32_decode x) \<longrightarrow>
      ConvertToSInt16 x = Some 32767 \<and> (\<forall>c::sint16. sint c \<le> sint (32767::sint16))) \<and>
   (fval_le (f32_decode x) (f32_decode f32_minus_one) \<longrightarrow>
      ConvertToSInt16 x = Some (- 32768) \<and> (\<forall>c::sint16. sint (- 32768 :: sint16) \<le> sint c)) \<and>
   (f32_decode x = FFin 0 \<longrightarrow> ConvertToSInt16 x = Some 0)"
proof (intro conjI impI allI)
  assume "fval_le (f32_decode x) (f32_decode y)"
  then show "\<exists>a b. ConvertToSInt16 x = Some a \<and> ConvertToSInt16 y = Some b \<and> sint a \<le> sint b"
    by (rule convert_mono)
next
  assume "fval_le (f32_decode f32_one) (f32_decode x)"
  then show "ConvertToSInt16 x = Some 32767" by (rule convert_hi)
next
  fix c :: sint16
  show "sint c \<le> sint (32767::sint16)" using sint16_range [of c] by simp
next
  assume "fval_le (f32_decode x) (f32_decode f32_minus_one)"
  then show "ConvertToSInt16 x = Some (- 32768)" by (rule convert_lo)
next
  fix c :: sint16
  show "sint (- 32768 :: sint16) \<le> sint c" using sint16_range [of c] by simp
next
  assume "f32_decode x = FFin 0"
  then show "ConvertToSInt16 x = Some 0" by (rule convert_zero)
qed

text \<open>
  C5 on \<open>-0.5 <= 0.5\<close> (patterns \<open>0xBF000000\<close>, \<open>0x3F000000\<close>), on \<open>1.5\<close>
  (\<open>0x3FC00000\<close>), on \<open>-2.0\<close> (\<open>0xC0000000\<close>) and on \<open>-0.0\<close> (\<open>0x80000000\<close>).
\<close>

theorem ConvertToSInt16_monotone_clipping_witness:
  "(\<exists>a b. ConvertToSInt16 0xBF000000 = Some a \<and> ConvertToSInt16 0x3F000000 = Some b \<and>
      sint a \<le> sint b) \<and>
   ConvertToSInt16 0x3FC00000 = Some 32767 \<and>
   ConvertToSInt16 0xC0000000 = Some (- 32768) \<and>
   ConvertToSInt16 0x80000000 = Some 0"
proof -
  have 1: "fval_le (f32_decode 0xBF000000) (f32_decode 0x3F000000)" by code_simp
  have 2: "fval_le (f32_decode f32_one) (f32_decode 0x3FC00000)" by code_simp
  have 3: "fval_le (f32_decode 0xC0000000) (f32_decode f32_minus_one)" by code_simp
  have 4: "f32_decode 0x80000000 = FFin 0" by code_simp
  from ConvertToSInt16_monotone_clipping [of "0xBF000000" "0x3F000000"] 1
    ConvertToSInt16_monotone_clipping [of "0x3FC00000"] 2
    ConvertToSInt16_monotone_clipping [of "0xC0000000"] 3
    ConvertToSInt16_monotone_clipping [of "0x80000000"] 4
  show ?thesis by blast
qed

section \<open>Properties of the pull\<close>

lemma those_map_Some:
  "(\<And>x. x \<in> set xs \<Longrightarrow> f x \<noteq> None) \<Longrightarrow> those (map f xs) = Some (map (\<lambda>x. the (f x)) xs)"
  by (induction xs) (auto split: option.splits)

lemma those_Some_nth:
  "those xs = Some ys \<Longrightarrow> length ys = length xs \<and> (\<forall>i<length xs. xs ! i = Some (ys ! i))"
proof (induction xs arbitrary: ys)
  case Nil
  then show ?case by simp
next
  case (Cons x xs)
  then show ?case
    by (auto split: option.splits simp: nth_Cons split: nat.splits)
qed

lemma frame_unat:
  "i < 2 ^ 32 \<Longrightarrow> unat (((rp::u32) + of_nat i) mod of_nat RING_BUFFER_FRAMES) = (unat rp + i) mod 8192"
proof -
  assume "i < 2 ^ 32"
  have "unat ((rp + of_nat i) mod (8192::u32)) = unat (rp + of_nat i) mod 8192"
    by (simp add: unat_mod)
  also have "unat (rp + of_nat i) = (unat rp + i) mod 2 ^ 32"
    by (simp add: unat_word_ariths unat_of_nat mod_add_right_eq)
  also have "((unat rp + i) mod 2 ^ 32) mod 8192 = (unat rp + i) mod 8192"
    by (rule mod_mod_cancel) simp
  finally show ?thesis by (simp add: RING_BUFFER_FRAMES_def)
qed

lemma overrun_policy_available:
  "snd (overrun_policy rp wp) = wp - fst (overrun_policy rp wp)"
  by (simp add: overrun_policy_def TARGET_LATENCY_def Let_def)

lemma samplesToRead_eq:
  fixes numSamples :: u32
  assumes "\<not> (wp \<le> rp \<or> available < numSamples)" and "available = wp - rp"
  shows "min numSamples (wp - rp) = numSamples"
  using assms by (simp add: min_def not_less)

lemma deliver_silent:
  "wp \<le> fst ra \<or> snd ra < n \<Longrightarrow> deliver h shm cc wp n ra = Some (silence n, h\<lparr>readPos := fst ra\<rparr>)"
  by (simp add: deliver_def Let_def)

lemma deliver_copy:
  assumes "\<not> (wp \<le> fst ra \<or> snd ra < n)" and "snd ra = wp - fst ra"
  shows "deliver h shm cc wp n ra =
     (case those (map (copy_frame shm cc (channelIndex h) (fst ra)) [0..<unat n]) of
        None \<Rightarrow> None
      | Some block \<Rightarrow> Some (block, h\<lparr>readPos := fst ra + n\<rparr>))"
proof -
  have "min n (wp - fst ra) = n"
    using assms by (intro samplesToRead_eq) auto
  then show ?thesis
    using assms(1) by (simp add: deliver_def Let_def split: option.splits)
qed

lemma OnReadClientInput_reach:
  assumes "isActive buf" and "getSamples buf = Some shm"
    and "\<not> channelIndex h \<ge> sint (getChannelCount buf)"
  shows "OnReadClientInput h buf bytesCount =
     deliver h shm (getChannelCount buf) (getWritePos buf) (bytesCount div 2)
       (overrun_policy (seed_readPos (readPos h) (getWritePos buf)) (getWritePos buf))"
  using assms by (simp add: OnReadClientInput_def Let_def)


text \<open>
  C10. A pull that gets past the underrun test (it is active, its channel is below the
  channel count, and after seeding and the overrun policy neither \<open>writePos <= readPos_\<close>
  nor \<open>available < numSamples\<close> holds) reads as many frames as were asked:
  \<open>samplesToRead = numSamples\<close>. So the block it returns has no zero-filled tail: it is
  \<open>numSamples\<close> long and each entry is the conversion of the sample of its frame, and the
  cursor advances by \<open>numSamples\<close>.
\<close>

theorem pull_reads_all_requested:
  assumes "isActive buf" and "getSamples buf = Some shm"
    and "\<not> channelIndex h \<ge> sint (getChannelCount buf)"
    and "ra = overrun_policy (seed_readPos (readPos h) (getWritePos buf)) (getWritePos buf)"
    and "\<not> (getWritePos buf \<le> fst ra \<or> snd ra < bytesCount div 2)"
  shows "min (bytesCount div 2) (getWritePos buf - fst ra) = bytesCount div 2 \<and>
    (\<forall>block h'. OnReadClientInput h buf bytesCount = Some (block, h') \<longrightarrow>
       length block = unat (bytesCount div 2) \<and>
       (\<forall>i<length block.
          Some (block ! i) = copy_frame shm (getChannelCount buf) (channelIndex h) (fst ra) i) \<and>
       h' = h\<lparr>readPos := fst ra + bytesCount div 2\<rparr>)"
proof -
  have av: "snd ra = getWritePos buf - fst ra"
    unfolding assms(4) by (rule overrun_policy_available)
  have m: "min (bytesCount div 2) (getWritePos buf - fst ra) = bytesCount div 2"
    using assms(5) av by (intro samplesToRead_eq) auto
  have eq: "OnReadClientInput h buf bytesCount =
     (case those (map (copy_frame shm (getChannelCount buf) (channelIndex h) (fst ra))
                    [0..<unat (bytesCount div 2)]) of
        None \<Rightarrow> None
      | Some block \<Rightarrow> Some (block, h\<lparr>readPos := fst ra + bytesCount div 2\<rparr>))"
    using OnReadClientInput_reach [OF assms(1,2,3)] deliver_copy [OF assms(5) av]
    by (simp add: assms(4))
  have "length block = unat (bytesCount div 2) \<and>
       (\<forall>i<length block.
          Some (block ! i) = copy_frame shm (getChannelCount buf) (channelIndex h) (fst ra) i) \<and>
       h' = h\<lparr>readPos := fst ra + bytesCount div 2\<rparr>"
    if r: "OnReadClientInput h buf bytesCount = Some (block, h')" for block h'
  proof -
    from r obtain b where b: "those (map (copy_frame shm (getChannelCount buf) (channelIndex h) (fst ra))
                    [0..<unat (bytesCount div 2)]) = Some b" and "block = b"
      and h': "h' = h\<lparr>readPos := fst ra + bytesCount div 2\<rparr>"
      unfolding eq by (auto split: option.splits)
    from those_Some_nth [OF b] \<open>block = b\<close> h' show ?thesis by auto
  qed
  with m show ?thesis by blast
qed


lemma sample_idx_unat:
  fixes f cc :: u32
  assumes "0 \<le> ch" and "unat f * unat cc + nat ch < 2 ^ 32"
  shows "unat (f * cc + word_of_int ch) = unat f * unat cc + nat ch"
proof -
  have "nat ch < 2 ^ LENGTH(32)"
    using assms(2) by simp
  then have "unat (of_nat (nat ch) :: u32) = nat ch"
    by (simp only: unat_of_nat mod_less)
  moreover have "(of_nat (nat ch) :: u32) = word_of_int ch"
    using assms(1) by simp
  ultimately have ch: "unat (word_of_int ch :: u32) = nat ch"
    by simp
  have "unat f * unat cc < 2 ^ LENGTH(32)"
    using assms(2) by simp
  then have m: "unat (f * cc) = unat f * unat cc"
    by (simp only: unat_mult_lem)
  have "unat (f * cc) + unat (word_of_int ch :: u32) < 2 ^ LENGTH(32)"
    using assms(2) by (simp add: m ch)
  then have "unat (f * cc + word_of_int ch) = unat (f * cc) + unat (word_of_int ch :: u32)"
    by (simp only: unat_add_lem)
  then show ?thesis by (simp add: m ch)
qed

lemma copy_frame_slot:
  assumes "0 \<le> ch" and "i < 2 ^ 32"
    and "(unat rp + i) mod 8192 * unat cc + nat ch < length shm"
    and "(unat rp + i) mod 8192 * unat cc + nat ch < 2 ^ 32"
  shows "copy_frame shm cc ch rp i = ConvertToSInt16 (shm ! ((unat rp + i) mod 8192 * unat cc + nat ch))"
proof -
  let ?f = "(rp + of_nat i) mod of_nat RING_BUFFER_FRAMES"
  have f: "unat ?f = (unat rp + i) mod 8192"
    using assms(2) by (rule frame_unat)
  have "unat (?f * cc + word_of_int ch) = (unat rp + i) mod 8192 * unat cc + nat ch"
    using sample_idx_unat [of ch ?f cc] assms(1,4) by (simp add: f)
  then show ?thesis
    using assms(3) by (simp add: copy_frame_def read_sample_def Let_def)
qed

text \<open>
  C1. A fresh handler on channel 3, an active segment with 4 channels and write cursor
  2000, a first pull of 256 frames (512 bytes): the cursor is seeded to
  \<open>2000 - 1024 = 976\<close>, the block is the 256 conversions of the samples at slots
  \<open>((976 + i) mod 8192) * 4 + 3\<close>, and the cursor ends at 1232. The slots read lie in
  the mapped floats and hold no NaN, so that every read and conversion is defined.
\<close>

theorem first_pull_scenario:
  assumes "channelCount seg = 4" and "activeFlag seg = 1" and "writeCursor seg = 2000"
    and "\<forall>i<256. (976 + i) mod 8192 * 4 + 3 < length (samples seg) \<and>
           f32_decode (samples seg ! ((976 + i) mod 8192 * 4 + 3)) \<noteq> FNaN"
  shows "seed_readPos (readPos (new_DuomicIOHandler 3)) (writeCursor seg) = 976 \<and>
    (\<exists>block. OnReadClientInput (new_DuomicIOHandler 3) (Some seg) 512 =
        Some (block, \<lparr>channelIndex = 3, readPos = 1232\<rparr>) \<and>
      length block = 256 \<and>
      (\<forall>i<256. Some (block ! i) =
         ConvertToSInt16 (samples seg ! ((976 + i) mod 8192 * 4 + 3))))"
proof -
  let ?h = "new_DuomicIOHandler 3"
  let ?buf = "Some seg"
  have seed: "seed_readPos (readPos ?h) (writeCursor seg) = 976"
    by (simp add: seed_readPos_def new_DuomicIOHandler_def TARGET_LATENCY_def assms(3))
  have ra: "overrun_policy (seed_readPos 0 2000) 2000 = (976, 1024)"
    by (simp add: seed_readPos_def overrun_policy_def RING_BUFFER_FRAMES_def TARGET_LATENCY_def)
  have act: "isActive ?buf" by (simp add: isActive_def assms(2))
  have shm: "getSamples ?buf = Some (samples seg)" by (simp add: getSamples_def)
  have ch: "\<not> channelIndex ?h \<ge> sint (getChannelCount ?buf)"
    by (simp add: getChannelCount_def assms(1) new_DuomicIOHandler_def)
  have slot: "copy_frame (samples seg) 4 3 976 i =
      ConvertToSInt16 (samples seg ! ((976 + i) mod 8192 * 4 + 3))" if "i < 256" for i
    using copy_frame_slot [of 3 i 976 4 "samples seg"] that assms(4)
    by (auto simp: mod_less_eq_dividend)
  have def: "copy_frame (samples seg) 4 3 976 i \<noteq> None" if "i \<in> set [0..<256]" for i
  proof -
    from that have i: "i < 256" by simp
    with assms(4) have "f32_decode (samples seg ! ((976 + i) mod 8192 * 4 + 3)) \<noteq> FNaN"
      by simp
    from convert_defined [OF this] slot [OF i] show ?thesis by auto
  qed
  have "OnReadClientInput ?h ?buf 512 =
     (case those (map (copy_frame (samples seg) 4 3 976) [0..<256]) of
        None \<Rightarrow> None
      | Some block \<Rightarrow> Some (block, ?h\<lparr>readPos := 976 + 512 div 2\<rparr>))"
    using OnReadClientInput_reach [OF act shm ch, of 512]
      deliver_copy [of 2000 "(976, 1024)" "512 div 2" ?h "samples seg" 4]
    by (simp add: ra getWritePos_def getChannelCount_def assms(1,3) new_DuomicIOHandler_def
          cong: option.case_cong)
  also have "those (map (copy_frame (samples seg) 4 3 976) [0..<256]) =
      Some (map (\<lambda>i. the (copy_frame (samples seg) 4 3 976 i)) [0..<256])"
    using def by (rule those_map_Some)
  finally have res: "OnReadClientInput ?h ?buf 512 =
      Some (map (\<lambda>i. the (copy_frame (samples seg) 4 3 976 i)) [0..<256],
            \<lparr>channelIndex = 3, readPos = 1232\<rparr>)"
    by (simp add: new_DuomicIOHandler_def)
  have "\<forall>i<256. Some (map (\<lambda>i. the (copy_frame (samples seg) 4 3 976 i)) [0..<256] ! i) =
         ConvertToSInt16 (samples seg ! ((976 + i) mod 8192 * 4 + 3))"
    using slot def by (auto simp del: upt_Suc)
  with res seed show ?thesis by (auto simp del: upt_Suc)
qed


lemma ConvertToSInt16_zero_pattern: "ConvertToSInt16 0 = Some 0"
  by code_simp

lemma zero_block:
  assumes "length block = n" and "\<forall>i<n. Some (block ! i) = Some (0::sint16)"
  shows "block = replicate n 0"
  using assms by (intro nth_equalityI) auto

text \<open>The scenario of C1 on a segment of 8192 frames of silence.\<close>

theorem first_pull_scenario_witness:
  "OnReadClientInput (new_DuomicIOHandler 3)
     (Some \<lparr>writeCursor = 2000, channelCount = 4, reserved = 0, activeFlag = 1,
            samples = replicate 32768 0\<rparr>) 512 =
   Some (replicate 256 0, \<lparr>channelIndex = 3, readPos = 1232\<rparr>)"
proof -
  let ?seg = "\<lparr>writeCursor = 2000, channelCount = 4, reserved = 0, activeFlag = 1,
            samples = replicate 32768 (0::f32)\<rparr>"
  have idx: "(976 + i) mod 8192 * 4 + 3 < 32768" for i :: nat
  proof -
    have "(976 + i) mod 8192 < 8192" by simp
    then show ?thesis by linarith
  qed
  have z: "f32_decode 0 \<noteq> FNaN" by code_simp
  have h: "\<forall>i<256. (976 + i) mod 8192 * 4 + 3 < length (samples ?seg) \<and>
           f32_decode (samples ?seg ! ((976 + i) mod 8192 * 4 + 3)) \<noteq> FNaN"
    using idx z by simp
  from first_pull_scenario [of ?seg, OF _ _ _ h]
  obtain block where r: "OnReadClientInput (new_DuomicIOHandler 3) (Some ?seg) 512 =
        Some (block, \<lparr>channelIndex = 3, readPos = 1232\<rparr>)"
    and l: "length block = 256"
    and b: "\<forall>i<256. Some (block ! i) = ConvertToSInt16 (samples ?seg ! ((976 + i) mod 8192 * 4 + 3))"
    by auto
  from b idx have "\<forall>i<256. Some (block ! i) = Some (0::sint16)"
    by (simp add: ConvertToSInt16_zero_pattern)
  with l have "block = replicate 256 0" by (rule zero_block)
  with r show ?thesis by simp
qed


lemma deliver_zero_samples:
  assumes "\<not> (wp \<le> fst ra \<or> snd ra < n)" and "snd ra = wp - fst ra"
    and "0 \<le> channelIndex h"
    and "8191 * unat cc + nat (channelIndex h) < N" and "N \<le> 2 ^ 32"
  shows "deliver h (replicate N 0) cc wp n ra =
     Some (replicate (unat n) 0, h\<lparr>readPos := fst ra + n\<rparr>)"
proof -
  have slot: "copy_frame (replicate N 0) cc (channelIndex h) (fst ra) i = Some 0"
    if "i < unat n" for i
  proof -
    have "(unat (fst ra) + i) mod 8192 \<le> 8191"
      using mod_less_divisor [of 8192 "unat (fst ra) + i"] by linarith
    then have "(unat (fst ra) + i) mod 8192 * unat cc \<le> 8191 * unat cc"
      by (rule mult_le_mono1)
    then have b: "(unat (fst ra) + i) mod 8192 * unat cc + nat (channelIndex h) < N"
      using assms(4) by linarith
    have "i < 2 ^ 32"
      using that unsigned_less [of n, where 'a = nat] by simp
    from copy_frame_slot [OF assms(3) this, of "fst ra" cc "replicate N 0"] b assms(5)
    show ?thesis by (simp add: ConvertToSInt16_zero_pattern)
  qed
  then have "those (map (copy_frame (replicate N 0) cc (channelIndex h) (fst ra)) [0..<unat n]) =
      Some (map (\<lambda>i. the (copy_frame (replicate N 0) cc (channelIndex h) (fst ra) i)) [0..<unat n])"
    by (intro those_map_Some) simp
  also have "map (\<lambda>i. the (copy_frame (replicate N 0) cc (channelIndex h) (fst ra) i)) [0..<unat n] =
      replicate (unat n) 0"
    using slot by (intro nth_equalityI) auto
  finally show ?thesis
    using deliver_copy [OF assms(1,2), of h "replicate N 0" cc] by simp
qed


lemma between_trans:
  fixes a b c x :: u32
  assumes "unat (b - a) \<le> unat (c - a)" and "unat (x - b) \<le> unat (c - b)"
  shows "unat (x - a) \<le> unat (c - a)"
proof -
  have pq: "b - a \<le> c - a"
    using assms(1) by (simp add: word_le_nat_alt)
  have "c - b = (c - a) - (b - a)" by simp
  then have "unat (c - b) = unat (c - a) - unat (b - a)"
    using unat_sub [OF pq] by simp
  with assms have le: "unat (x - b) + unat (b - a) \<le> unat (c - a)"
    by linarith
  have "unat (c - a) < 2 ^ LENGTH(32)"
    by (rule unsigned_less)
  with le have "unat (x - b) + unat (b - a) < 2 ^ LENGTH(32)"
    by linarith
  then have "unat ((x - b) + (b - a)) = unat (x - b) + unat (b - a)"
    by (simp only: unat_add_lem)
  moreover have "(x - b) + (b - a) = x - a" by simp
  ultimately show ?thesis using le by simp
qed

lemma between_rest:
  fixes a c x :: u32
  assumes "unat (x - a) \<le> unat (c - a)"
  shows "unat (c - x) = unat (c - a) - unat (x - a)"
proof -
  have "x - a \<le> c - a"
    using assms by (simp add: word_le_nat_alt)
  from unat_sub [OF this] show ?thesis by simp
qed

lemma seed_between: "unat (seed_readPos rp wp - rp) \<le> unat (wp - rp)"
proof (cases "rp = 0 \<and> wp > TARGET_LATENCY")
  case True
  then have "TARGET_LATENCY \<le> wp" by (simp add: less_imp_le)
  from unat_sub [OF this] True show ?thesis
    by (simp add: seed_readPos_def)
next
  case False
  then show ?thesis by (auto simp: seed_readPos_def)
qed

lemma overrun_between:
  "unat (fst (overrun_policy rp wp) - rp) \<le> unat (wp - rp)"
proof (cases "unat (wp - rp) > RING_BUFFER_FRAMES - 512")
  case True
  then have "unat TARGET_LATENCY \<le> unat (wp - rp)"
    by (simp add: TARGET_LATENCY_def RING_BUFFER_FRAMES_def)
  then have "TARGET_LATENCY \<le> wp - rp"
    by (simp add: word_le_nat_alt)
  from unat_sub [OF this] have "unat (wp - rp - TARGET_LATENCY) \<le> unat (wp - rp)"
    by simp
  moreover have "wp - TARGET_LATENCY - rp = wp - rp - TARGET_LATENCY" by simp
  ultimately have "unat (wp - TARGET_LATENCY - rp) \<le> unat (wp - rp)"
    by (simp only:)
  then show ?thesis
    using True by (simp add: overrun_policy_def Let_def)
next
  case False
  then show ?thesis by (simp add: overrun_policy_def Let_def)
qed

lemma deliver_between:
  assumes "deliver h shm cc wp n ra = Some (block, h')"
  shows "unat (readPos h' - fst ra) \<le> unat (wp - fst ra)"
proof (cases "wp \<le> fst ra \<or> snd ra < n")
  case True
  with assms show ?thesis by (auto simp: deliver_def Let_def)
next
  case False
  with assms have "readPos h' = fst ra + min n (wp - fst ra)"
    by (auto simp: deliver_def Let_def split: option.splits)
  then have "readPos h' - fst ra = min n (wp - fst ra)" by simp
  moreover have "min n (wp - fst ra) \<le> wp - fst ra" by simp
  ultimately show ?thesis by (simp add: word_le_nat_alt)
qed

lemma pull_cursor_between:
  assumes "OnReadClientInput h buf bytesCount = Some (block, h')"
  shows "unat (readPos h' - readPos h) \<le> unat (getWritePos buf - readPos h)"
proof (cases "isActive buf \<and> getSamples buf \<noteq> None \<and> \<not> channelIndex h \<ge> sint (getChannelCount buf)")
  case False
  with assms have "h' = h"
    by (auto simp: OnReadClientInput_def Let_def split: option.splits if_splits)
  then show ?thesis by simp
next
  case True
  then obtain shm where shm: "getSamples buf = Some shm" by auto
  let ?wp = "getWritePos buf"
  let ?rp1 = "seed_readPos (readPos h) ?wp"
  let ?ra = "overrun_policy ?rp1 ?wp"
  from True shm assms have d: "deliver h shm (getChannelCount buf) ?wp (bytesCount div 2) ?ra = Some (block, h')"
    using OnReadClientInput_reach [of buf shm h bytesCount] by simp
  have 1: "unat (?rp1 - readPos h) \<le> unat (?wp - readPos h)" by (rule seed_between)
  have 2: "unat (fst ?ra - ?rp1) \<le> unat (?wp - ?rp1)" by (rule overrun_between)
  have 3: "unat (readPos h' - fst ?ra) \<le> unat (?wp - fst ?ra)"
    using d by (rule deliver_between)
  from between_trans [OF 1 2] have 4: "unat (fst ?ra - readPos h) \<le> unat (?wp - readPos h)" .
  from between_trans [OF 4 3] show ?thesis .
qed

lemma pulls_step:
  assumes "pulls h ins = Some hs" and "k < length ins"
  shows "length hs = length ins \<and>
    (\<exists>block. OnReadClientInput ((h # hs) ! k) (fst (ins ! k)) (snd (ins ! k)) = Some (block, hs ! k))"
  using assms
proof (induction ins arbitrary: h hs k)
  case Nil
  then show ?case by simp
next
  case (Cons req rest)
  from Cons.prems(1) obtain res hs' where
    res: "OnReadClientInput h (fst req) (snd req) = Some res"
    and hs': "pulls (snd res) rest = Some hs'" and hs: "hs = snd res # hs'"
    by (auto split: option.splits)
  show ?case
  proof (cases k)
    case 0
    have "length hs' = length rest"
    proof (cases rest)
      case Nil
      with hs' show ?thesis by simp
    next
      case (Cons a list)
      with Cons.IH [OF hs', of 0] show ?thesis by simp
    qed
    with res hs 0 show ?thesis by (cases res) simp
  next
    case (Suc j)
    with Cons.prems(2) have "j < length rest" by simp
    from Cons.IH [OF hs' this] hs Suc show ?thesis by simp
  qed
qed

text \<open>
  C4. In every sequence of pulls on one handler, each pull moves the read cursor forward
  (mod \<open>2^32\<close>) and not beyond the write cursor of that pull: the forward distance from the
  cursor before the call to the cursor after it is at most the forward distance to the
  write cursor. When that drift is below \<open>2^31\<close> frames, the step forward is below \<open>2^31\<close>
  and the cursor after the call is at most the write cursor in the wrap-around sense.
\<close>

theorem readPos_monotone_bounded:
  assumes "pulls h ins = Some hs" and "k < length ins"
    and "rp = readPos ((h # hs) ! k)" and "rp' = readPos (hs ! k)"
    and "wp = getWritePos (fst (ins ! k))"
  shows "unat (rp' - rp) \<le> unat (wp - rp) \<and>
    (unat (wp - rp) < 2 ^ 31 \<longrightarrow> unat (rp' - rp) < 2 ^ 31 \<and> unat (wp - rp') < 2 ^ 31)"
proof -
  from pulls_step [OF assms(1,2)] obtain block where
    "OnReadClientInput ((h # hs) ! k) (fst (ins ! k)) (snd (ins ! k)) = Some (block, hs ! k)"
    by auto
  from pull_cursor_between [OF this] have b: "unat (rp' - rp) \<le> unat (wp - rp)"
    by (simp add: assms(3,4,5))
  from between_rest [OF b] have "unat (wp - rp') \<le> unat (wp - rp)" by simp
  with b show ?thesis by auto
qed


lemma pull_zero_segment:
  assumes "activeFlag seg = 1" and "samples seg = replicate N 0"
    and "0 \<le> channelIndex h" and "channelIndex h < sint (channelCount seg)"
    and "8191 * unat (channelCount seg) + nat (channelIndex h) < N" and "N \<le> 2 ^ 32"
    and "overrun_policy (seed_readPos (readPos h) (writeCursor seg)) (writeCursor seg) = ra"
    and "\<not> (writeCursor seg \<le> fst ra \<or> snd ra < bytesCount div 2)"
  shows "OnReadClientInput h (Some seg) bytesCount =
     Some (replicate (unat (bytesCount div 2)) 0, h\<lparr>readPos := fst ra + bytesCount div 2\<rparr>)"
proof -
  have av: "snd ra = writeCursor seg - fst ra"
    unfolding assms(7) [symmetric] by (rule overrun_policy_available)
  have "OnReadClientInput h (Some seg) bytesCount =
      deliver h (replicate N 0) (channelCount seg) (writeCursor seg) (bytesCount div 2) ra"
    using OnReadClientInput_reach [of "Some seg" "replicate N 0" h bytesCount] assms(1,2,4,7)
    by (simp add: isActive_def getSamples_def getChannelCount_def getWritePos_def)
  also have "\<dots> = Some (replicate (unat (bytesCount div 2)) 0, h\<lparr>readPos := fst ra + bytesCount div 2\<rparr>)"
    using assms(8) av assms(3,5,6) by (rule deliver_zero_samples)
  finally show ?thesis .
qed

lemma pull_example_first:
  "OnReadClientInput \<lparr>channelIndex = 3, readPos = 0\<rparr>
     (Some \<lparr>writeCursor = 2000, channelCount = 4, reserved = 0, activeFlag = 1,
            samples = replicate 32768 0\<rparr>) 512 =
   Some (replicate 256 0, \<lparr>channelIndex = 3, readPos = 1232\<rparr>)"
proof -
  have ra: "overrun_policy (seed_readPos 0 2000) 2000 = (976, 1024)"
    by (simp add: seed_readPos_def overrun_policy_def RING_BUFFER_FRAMES_def TARGET_LATENCY_def)
  show ?thesis
    using pull_zero_segment [of "\<lparr>writeCursor = 2000, channelCount = 4, reserved = 0,
        activeFlag = 1, samples = replicate 32768 0\<rparr>" 32768 "\<lparr>channelIndex = 3, readPos = 0\<rparr>"
        "(976, 1024)" 512] ra
    by simp
qed

lemma pull_example_at_margin:
  "OnReadClientInput \<lparr>channelIndex = 1, readPos = 1000\<rparr>
     (Some \<lparr>writeCursor = 8680, channelCount = 2, reserved = 0, activeFlag = 1,
            samples = replicate 16384 0\<rparr>) 512 =
   Some (replicate 256 0, \<lparr>channelIndex = 1, readPos = 1256\<rparr>)"
proof -
  have ra: "overrun_policy (seed_readPos 1000 8680) 8680 = (1000, 7680)"
    by (simp add: seed_readPos_def overrun_policy_def RING_BUFFER_FRAMES_def TARGET_LATENCY_def)
  show ?thesis
    using pull_zero_segment [of "\<lparr>writeCursor = 8680, channelCount = 2, reserved = 0,
        activeFlag = 1, samples = replicate 16384 0\<rparr>" 16384 "\<lparr>channelIndex = 1, readPos = 1000\<rparr>"
        "(1000, 7680)" 512] ra
    by simp
qed

lemma pull_example_over_margin:
  "OnReadClientInput \<lparr>channelIndex = 1, readPos = 1000\<rparr>
     (Some \<lparr>writeCursor = 8681, channelCount = 2, reserved = 0, activeFlag = 1,
            samples = replicate 16384 0\<rparr>) 512 =
   Some (replicate 256 0, \<lparr>channelIndex = 1, readPos = 7913\<rparr>)"
proof -
  have ra: "overrun_policy (seed_readPos 1000 8681) 8681 = (7657, 1024)"
    by (simp add: seed_readPos_def overrun_policy_def RING_BUFFER_FRAMES_def TARGET_LATENCY_def)
  show ?thesis
    using pull_zero_segment [of "\<lparr>writeCursor = 8681, channelCount = 2, reserved = 0,
        activeFlag = 1, samples = replicate 16384 0\<rparr>" 16384 "\<lparr>channelIndex = 1, readPos = 1000\<rparr>"
        "(7657, 1024)" 512] ra
    by simp
qed

lemma pull_example_underrun:
  "OnReadClientInput \<lparr>channelIndex = 3, readPos = 0\<rparr>
     (Some \<lparr>writeCursor = 2000, channelCount = 4, reserved = 0, activeFlag = 1,
            samples = replicate 32768 0\<rparr>) 4096 =
   Some (replicate 2048 0, \<lparr>channelIndex = 3, readPos = 976\<rparr>)"
  by (simp add: OnReadClientInput_def isActive_def getSamples_def getWritePos_def
      getChannelCount_def seed_readPos_def overrun_policy_def deliver_def silence_def
      RING_BUFFER_FRAMES_def TARGET_LATENCY_def Let_def)


lemma sint_le_uint: "sint (w::u32) \<le> uint w"
proof -
  have "- (2 ^ 31) \<le> (0::int)" by simp
  also have "0 \<le> uint w" by simp
  finally have "- (2 ^ 31) \<le> uint w" .
  then show ?thesis
    by (simp add: sint_uint signed_take_bit_int_less_eq_self_iff)
qed

text \<open>
  C3, as the code has it. A pull on an inactive or disconnected reader, or of a channel
  index that is not below the channel count, writes \<open>numSamples\<close> zeros and leaves the
  handler as it was. A pull that fails the underrun test (\<open>writePos <= readPos_\<close> or
  \<open>available < numSamples\<close>, both after seeding and the overrun policy) writes
  \<open>numSamples\<close> zeros and does not advance the cursor by any frame read; the cursor is
  the one the seeding and the overrun policy left: \<open>writePos - 1024\<close> when one of the two
  fired in this call, else its value at entry.
\<close>

theorem silent_pull_zero_block:
  assumes "wp = getWritePos buf"
    and "ra = overrun_policy (seed_readPos (readPos h) wp) wp"
  shows "(\<not> isActive buf \<or> getSamples buf = None \<or>
          uint (getChannelCount buf) \<le> channelIndex h \<or> sint (getChannelCount buf) \<le> channelIndex h
          \<longrightarrow> OnReadClientInput h buf bytesCount = Some (replicate (unat (bytesCount div 2)) 0, h)) \<and>
         (isActive buf \<and> getSamples buf \<noteq> None \<and> channelIndex h < sint (getChannelCount buf) \<and>
          (wp \<le> fst ra \<or> snd ra < bytesCount div 2)
          \<longrightarrow> OnReadClientInput h buf bytesCount =
                Some (replicate (unat (bytesCount div 2)) 0, h\<lparr>readPos := fst ra\<rparr>) \<and>
              fst ra = (if readPos h = 0 \<and> wp > TARGET_LATENCY then wp - TARGET_LATENCY
                        else if unat (wp - readPos h) > RING_BUFFER_FRAMES - 512
                        then wp - TARGET_LATENCY else readPos h))"
proof (intro conjI impI)
  assume "\<not> isActive buf \<or> getSamples buf = None \<or>
          uint (getChannelCount buf) \<le> channelIndex h \<or> sint (getChannelCount buf) \<le> channelIndex h"
  moreover have "sint (getChannelCount buf) \<le> uint (getChannelCount buf)"
    by (rule sint_le_uint)
  ultimately have "\<not> isActive buf \<or> getSamples buf = None \<or> sint (getChannelCount buf) \<le> channelIndex h"
    by linarith
  then show "OnReadClientInput h buf bytesCount = Some (replicate (unat (bytesCount div 2)) 0, h)"
    by (auto simp: OnReadClientInput_def silence_def Let_def split: option.splits)
next
  assume a: "isActive buf \<and> getSamples buf \<noteq> None \<and> channelIndex h < sint (getChannelCount buf) \<and>
          (wp \<le> fst ra \<or> snd ra < bytesCount div 2)"
  then obtain shm where shm: "getSamples buf = Some shm" by auto
  from a shm show "OnReadClientInput h buf bytesCount =
                Some (replicate (unat (bytesCount div 2)) 0, h\<lparr>readPos := fst ra\<rparr>)"
    using OnReadClientInput_reach [of buf shm h bytesCount]
      deliver_silent [of wp ra "bytesCount div 2" h shm "getChannelCount buf"]
    by (simp add: assms silence_def)
next
  show "fst ra = (if readPos h = 0 \<and> wp > TARGET_LATENCY then wp - TARGET_LATENCY
                        else if unat (wp - readPos h) > RING_BUFFER_FRAMES - 512
                        then wp - TARGET_LATENCY else readPos h)"
    by (simp add: assms(2) overrun_policy_def seed_readPos_def Let_def
        TARGET_LATENCY_def RING_BUFFER_FRAMES_def)
qed


text \<open>A disconnected reader, and an underrun of 100 available frames for 256 asked.\<close>

theorem silent_pull_zero_block_witness:
  "OnReadClientInput \<lparr>channelIndex = 3, readPos = 500\<rparr> None 512 =
     Some (replicate 256 0, \<lparr>channelIndex = 3, readPos = 500\<rparr>) \<and>
   OnReadClientInput \<lparr>channelIndex = 3, readPos = 1900\<rparr>
     (Some \<lparr>writeCursor = 2000, channelCount = 4, reserved = 0, activeFlag = 1,
            samples = replicate 32768 0\<rparr>) 512 =
     Some (replicate 256 0, \<lparr>channelIndex = 3, readPos = 1900\<rparr>)"
proof -
  let ?seg = "\<lparr>writeCursor = 2000, channelCount = 4, reserved = 0, activeFlag = 1,
            samples = replicate 32768 (0::f32)\<rparr>"
  have ra: "overrun_policy (seed_readPos 1900 2000) 2000 = (1900, 100)"
    by (simp add: seed_readPos_def overrun_policy_def RING_BUFFER_FRAMES_def TARGET_LATENCY_def)
  have 1: "OnReadClientInput \<lparr>channelIndex = 3, readPos = 500\<rparr> None 512 =
     Some (replicate 256 0, \<lparr>channelIndex = 3, readPos = 500\<rparr>)"
    using silent_pull_zero_block [OF refl refl, of None "\<lparr>channelIndex = 3, readPos = 500\<rparr>" 512]
    by (simp add: isActive_def)
  have 2: "OnReadClientInput \<lparr>channelIndex = 3, readPos = 1900\<rparr> (Some ?seg) 512 =
     Some (replicate 256 0, \<lparr>channelIndex = 3, readPos = 1900\<rparr>)"
    using silent_pull_zero_block [OF refl refl, of "Some ?seg"
        "\<lparr>channelIndex = 3, readPos = 1900\<rparr>" 512] ra
    by (simp add: isActive_def getSamples_def getWritePos_def getChannelCount_def)
  from 1 2 show ?thesis by simp
qed

text \<open>
  C3 as stated fails: a fresh handler asked for 2048 frames at write cursor 2000 has
  1024 frames available after seeding, returns silence, and its cursor has moved from 0
  to 976.
\<close>

theorem silent_pull_moves_cursor_counterexample:
  "snd (overrun_policy (seed_readPos 0 2000) 2000) < (4096::u32) div 2 \<and>
   OnReadClientInput \<lparr>channelIndex = 3, readPos = 0\<rparr>
     (Some \<lparr>writeCursor = 2000, channelCount = 4, reserved = 0, activeFlag = 1,
            samples = replicate 32768 0\<rparr>) 4096 =
     Some (replicate 2048 0, \<lparr>channelIndex = 3, readPos = 976\<rparr>) \<and>
   readPos \<lparr>channelIndex = 3, readPos = 976\<rparr> \<noteq> readPos \<lparr>channelIndex = 3, readPos = 0\<rparr>"
  using pull_example_underrun
  by (simp add: seed_readPos_def overrun_policy_def RING_BUFFER_FRAMES_def TARGET_LATENCY_def)

text \<open>
  C2, as the code has it. In a pull that gets to the overrun policy, the cursor is reset
  to \<open>writePos - 1024\<close> and the rest of the call runs with \<open>available = 1024\<close> exactly when
  \<open>available = writePos - readPos_\<close> is strictly greater than \<open>8192 - 512 = 7680\<close>; at 7680
  or less the cursor and \<open>available\<close> are kept.
\<close>

theorem overrun_reset_strict:
  assumes "isActive buf" and "getSamples buf = Some shm"
    and "channelIndex h < sint (getChannelCount buf)"
    and "wp = getWritePos buf" and "rp = seed_readPos (readPos h) wp"
  shows "(unat (wp - rp) > RING_BUFFER_FRAMES - 512 \<longrightarrow>
            overrun_policy rp wp = (wp - TARGET_LATENCY, TARGET_LATENCY) \<and>
            OnReadClientInput h buf bytesCount =
              deliver h shm (getChannelCount buf) wp (bytesCount div 2)
                (wp - TARGET_LATENCY, TARGET_LATENCY)) \<and>
         (unat (wp - rp) \<le> RING_BUFFER_FRAMES - 512 \<longrightarrow>
            overrun_policy rp wp = (rp, wp - rp) \<and>
            OnReadClientInput h buf bytesCount =
              deliver h shm (getChannelCount buf) wp (bytesCount div 2) (rp, wp - rp))"
  using OnReadClientInput_reach [of buf shm h bytesCount] assms
  by (simp add: overrun_policy_def Let_def)

text \<open>7681 frames available: the cursor 1000 is reset to \<open>8681 - 1024 = 7657\<close>.\<close>

theorem overrun_reset_strict_witness:
  "overrun_policy 1000 8681 = (7657, 1024) \<and>
   OnReadClientInput \<lparr>channelIndex = 1, readPos = 1000\<rparr>
     (Some \<lparr>writeCursor = 8681, channelCount = 2, reserved = 0, activeFlag = 1,
            samples = replicate 16384 0\<rparr>) 512 =
   deliver \<lparr>channelIndex = 1, readPos = 1000\<rparr> (replicate 16384 0) 2 8681 256 (7657, 1024)"
  using overrun_reset_strict [of "Some \<lparr>writeCursor = 8681, channelCount = 2, reserved = 0,
        activeFlag = 1, samples = replicate 16384 0\<rparr>" "replicate 16384 0"
        "\<lparr>channelIndex = 1, readPos = 1000\<rparr>" 8681 1000 512]
  by (simp add: isActive_def getSamples_def getWritePos_def getChannelCount_def
      seed_readPos_def RING_BUFFER_FRAMES_def TARGET_LATENCY_def)

text \<open>
  C2 as stated fails at \<open>available = 7680\<close>: no reset, 256 frames are read from frame 1000
  on, and the cursor ends at 1256.
\<close>

theorem overrun_at_margin_counterexample:
  "unat ((8680::u32) - seed_readPos 1000 8680) = RING_BUFFER_FRAMES - 512 \<and>
   overrun_policy (seed_readPos 1000 8680) 8680 = (1000, 7680) \<and>
   OnReadClientInput \<lparr>channelIndex = 1, readPos = 1000\<rparr>
     (Some \<lparr>writeCursor = 8680, channelCount = 2, reserved = 0, activeFlag = 1,
            samples = replicate 16384 0\<rparr>) 512 =
   Some (replicate 256 0, \<lparr>channelIndex = 1, readPos = 1256\<rparr>)"
  using pull_example_at_margin
  by (simp add: seed_readPos_def overrun_policy_def RING_BUFFER_FRAMES_def TARGET_LATENCY_def)

text \<open>C10 on the first pull of 256 frames at write cursor 2000.\<close>

theorem pull_reads_all_requested_witness:
  "min ((512::u32) div 2) (2000 - 976) = 512 div 2 \<and>
   OnReadClientInput \<lparr>channelIndex = 3, readPos = 0\<rparr>
     (Some \<lparr>writeCursor = 2000, channelCount = 4, reserved = 0, activeFlag = 1,
            samples = replicate 32768 0\<rparr>) 512 =
   Some (replicate 256 0, \<lparr>channelIndex = 3, readPos = 0\<rparr>\<lparr>readPos := 976 + 512 div 2\<rparr>)"
proof -
  let ?seg = "\<lparr>writeCursor = 2000, channelCount = 4, reserved = 0, activeFlag = 1,
            samples = replicate 32768 (0::f32)\<rparr>"
  let ?h = "\<lparr>channelIndex = 3, readPos = 0\<rparr>"
  have ra: "(976, 1024) = overrun_policy (seed_readPos (readPos ?h) (getWritePos (Some ?seg))) (getWritePos (Some ?seg))"
    by (simp add: getWritePos_def seed_readPos_def overrun_policy_def RING_BUFFER_FRAMES_def TARGET_LATENCY_def)
  have a: "isActive (Some ?seg)" by (simp add: isActive_def)
  have b: "getSamples (Some ?seg) = Some (replicate 32768 0)" by (simp add: getSamples_def)
  have c: "\<not> channelIndex ?h \<ge> sint (getChannelCount (Some ?seg))"
    by (simp add: getChannelCount_def)
  have d: "\<not> (getWritePos (Some ?seg) \<le> fst (976::u32, 1024::u32) \<or> snd (976::u32, 1024::u32) < 512 div 2)"
    by (simp add: getWritePos_def)
  note pull_reads_all_requested [OF a b c ra d]
  with pull_example_first show ?thesis
    by (simp add: getWritePos_def)
qed

text \<open>C4 on the first of two pulls, the second on a disconnected reader.\<close>

theorem readPos_monotone_bounded_witness:
  "unat ((1232::u32) - 0) \<le> unat ((2000::u32) - 0) \<and> unat ((1232::u32) - 0) < 2 ^ 31 \<and>
   unat ((2000::u32) - 1232) < 2 ^ 31"
proof -
  let ?seg = "\<lparr>writeCursor = 2000, channelCount = 4, reserved = 0, activeFlag = 1,
            samples = replicate 32768 (0::f32)\<rparr>"
  let ?h = "\<lparr>channelIndex = 3, readPos = 0\<rparr>"
  have p: "pulls ?h [(Some ?seg, 512), (None, 512)] =
      Some [\<lparr>channelIndex = 3, readPos = 1232\<rparr>, \<lparr>channelIndex = 3, readPos = 1232\<rparr>]"
    using pull_example_first by (simp add: OnReadClientInput_def isActive_def)
  from readPos_monotone_bounded [OF p, of 0 0 1232 2000]
  show ?thesis by (simp add: getWritePos_def)
qed

section \<open>Properties of the registry, the commands and the configuration\<close>

lemma digit_cases: "d < 10 \<Longrightarrow> d = 0 \<or> d = 1 \<or> d = 2 \<or> d = 3 \<or> d = 4 \<or> d = 5 \<or> d = 6 \<or> d = 7 \<or> d = 8 \<or> d = (9::nat)"
  by arith

lemma digit_char_is_digit: "d < 10 \<Longrightarrow> is_digit (digit_char d)"
  using digit_cases [of d] by (auto simp: digit_char_def is_digit_def)

lemma digit_val_digit_char: "d < 10 \<Longrightarrow> digit_val (digit_char d) = int d"
  using digit_cases [of d] by (auto simp: digit_char_def digit_val_def)

lemma is_digit_not_space: "is_digit c \<Longrightarrow> \<not> isspace c \<and> c \<noteq> CHR ''-'' \<and> c \<noteq> CHR ''+''"
  by (auto simp: is_digit_def isspace_def)

lemma show_nat_digits: "\<forall>c\<in>set (show_nat n). is_digit c"
proof (induction n rule: show_nat.induct)
  case (1 n)
  show ?case
  proof (cases "n < 10")
    case True
    then show ?thesis
      by (subst show_nat.simps) (simp add: digit_char_is_digit)
  next
    case False
    with 1 show ?thesis
      by (subst show_nat.simps) (simp add: digit_char_is_digit)
  qed
qed

lemma show_nat_not_Nil: "show_nat n \<noteq> []"
  by (subst show_nat.simps) simp

lemma digits_val_snoc: "digits_val (ds @ [c]) = 10 * digits_val ds + digit_val c"
  by (simp add: digits_val_def)

lemma digits_val_show_nat: "digits_val (show_nat n) = int n"
proof (induction n rule: show_nat.induct)
  case (1 n)
  show ?case
  proof (cases "n < 10")
    case True
    then show ?thesis
      by (subst show_nat.simps) (simp add: digits_val_def digit_val_digit_char)
  next
    case False
    with 1 have "digits_val (show_nat (n div 10)) = int (n div 10)" by simp
    with False show ?thesis
      by (subst show_nat.simps) (simp add: digits_val_snoc digit_val_digit_char zdiv_int zmod_int)
  qed
qed

lemma takeWhile_all: "\<forall>c\<in>set xs. P c \<Longrightarrow> takeWhile P xs = xs"
  by (induction xs) auto

lemma signed_digits_show_int:
  "signed_digits (show_int n) = (n < 0, show_nat (nat \<bar>n\<bar>))"
proof (cases "n < 0")
  case True
  then show ?thesis
    by (simp add: signed_digits_def show_int_def takeWhile_all show_nat_digits)
next
  case False
  obtain c cs where s: "show_nat (nat n) = c # cs"
    using show_nat_not_Nil [of "nat n"] by (cases "show_nat (nat n)") auto
  have "is_digit c"
    using show_nat_digits [of "nat n"] s by simp
  then have "c \<noteq> CHR ''-''" "c \<noteq> CHR ''+''"
    using is_digit_not_space by auto
  moreover have "takeWhile is_digit (c # cs) = c # cs"
    using show_nat_digits [of "nat n"] s by (intro takeWhile_all) simp
  ultimately show ?thesis
    using False s by (simp add: signed_digits_def show_int_def)
qed

lemma show_int_head: "show_int n \<noteq> [] \<and> \<not> isspace (hd (show_int n))"
proof (cases "n < 0")
  case True
  then show ?thesis by (simp add: show_int_def isspace_def)
next
  case False
  obtain c cs where s: "show_nat (nat n) = c # cs"
    using show_nat_not_Nil [of "nat n"] by (cases "show_nat (nat n)") auto
  have "is_digit c"
    using show_nat_digits [of "nat n"] s by simp
  with False s show ?thesis
    using is_digit_not_space by (simp add: show_int_def)
qed

lemma dropWhile_head: "xs \<noteq> [] \<Longrightarrow> \<not> P (hd xs) \<Longrightarrow> dropWhile P xs = xs"
  by (cases xs) auto

lemma extract_int_show_int:
  "extract_int \<lparr>rdbuf = show_int n, eofbit = False, failbit = False\<rparr> = Some (max INT_MIN (min INT_MAX n))"
proof -
  have d: "dropWhile isspace (show_int n) = show_int n"
    using show_int_head [of n] by (intro dropWhile_head) auto
  have v: "(if n < 0 then - digits_val (show_nat (nat \<bar>n\<bar>)) else digits_val (show_nat (nat \<bar>n\<bar>))) = n"
    by (simp add: digits_val_show_nat)
  show ?thesis
    using show_int_head [of n] show_nat_not_Nil [of "nat \<bar>n\<bar>"] v
    by (simp add: extract_int_def sentry_def good_def d signed_digits_show_int Let_def)
qed

lemma split_at_delim:
  "x \<notin> set xs \<Longrightarrow>
    takeWhile (\<lambda>c. c \<noteq> x) (xs @ x # ys) = xs \<and> dropWhile (\<lambda>c. c \<noteq> x) (xs @ x # ys) = x # ys"
  by (induction xs) auto

lemma HandleCommand_ADD:
  assumes "extract_string \<lparr>rdbuf = cmd, eofbit = False, failbit = False\<rparr> = (Some ''ADD'', iss1)"
    and "getline CHR '':'' (ws iss1) = (Some nm, iss2)" and "nm \<noteq> []"
    and "extract_int iss2 = Some ch"
  shows "HandleCommand cmd g =
    (if ch < 0 \<or> ch \<ge> MAX_CHANNELS then Some (''ERROR:Invalid channel'' @ [LF], g)
     else if fst (AddVirtualDevice nm ch g) then Some (''OK:Device added'' @ [LF], snd (AddVirtualDevice nm ch g))
     else Some (''ERROR:Device already exists'' @ [LF], snd (AddVirtualDevice nm ch g)))"
  unfolding HandleCommand_def using assms by (simp add: Let_def split: prod.splits)


lemma parse_ADD:
  assumes "nm \<noteq> []" and "\<not> isspace (hd nm)" and "CHR '':'' \<notin> set nm"
  shows "HandleCommand (''ADD '' @ nm @ '':'' @ show_int n) g =
    (let ch = max INT_MIN (min INT_MAX n)
     in if ch < 0 \<or> ch \<ge> MAX_CHANNELS then Some (''ERROR:Invalid channel'' @ [LF], g)
        else if fst (AddVirtualDevice nm ch g) then Some (''OK:Device added'' @ [LF], snd (AddVirtualDevice nm ch g))
        else Some (''ERROR:Device already exists'' @ [LF], snd (AddVirtualDevice nm ch g)))"
proof -
  let ?tail = "nm @ '':'' @ show_int n"
  have 1: "extract_string \<lparr>rdbuf = ''ADD '' @ ?tail, eofbit = False, failbit = False\<rparr> =
      (Some ''ADD'', \<lparr>rdbuf = CHR '' '' # ?tail, eofbit = False, failbit = False\<rparr>)"
    by (simp add: extract_string_def sentry_def good_def isspace_def)
  have "dropWhile isspace ?tail = ?tail"
    using assms(1,2) by (intro dropWhile_head) auto
  then have 2: "ws \<lparr>rdbuf = CHR '' '' # ?tail, eofbit = False, failbit = False\<rparr> =
      \<lparr>rdbuf = ?tail, eofbit = False, failbit = False\<rparr>"
    using assms(1) by (simp add: ws_def sentry_def good_def isspace_def)
  have t: "takeWhile (\<lambda>c. c \<noteq> CHR '':'') (nm @ CHR '':'' # show_int n) = nm"
    using split_at_delim [OF assms(3), of "show_int n"] by simp
  have dr: "dropWhile (\<lambda>c. c \<noteq> CHR '':'') (nm @ CHR '':'' # show_int n) = CHR '':'' # show_int n"
    using split_at_delim [OF assms(3), of "show_int n"] by simp
  have 3: "getline CHR '':'' \<lparr>rdbuf = ?tail, eofbit = False, failbit = False\<rparr> =
      (Some nm, \<lparr>rdbuf = show_int n, eofbit = False, failbit = False\<rparr>)"
    unfolding getline_def by (simp add: sentry_def good_def t dr Let_def)
  from 3 have g3: "getline CHR '':'' (ws \<lparr>rdbuf = CHR '' '' # ?tail, eofbit = False, failbit = False\<rparr>) =
      (Some nm, \<lparr>rdbuf = show_int n, eofbit = False, failbit = False\<rparr>)"
    by (simp only: 2)
  show ?thesis
    using HandleCommand_ADD [OF 1 g3 assms(1) extract_int_show_int, of g]
    by (simp add: Let_def)
qed




lemma show_int_3: "show_int 3 = ''3''"
  by code_simp


lemma ListDevices_snoc:
  "fst (ListDevices (g @ [dev])) = fst (ListDevices g) @ device_line dev"
  by (simp add: ListDevices_def)

text \<open>
  C6. For every name that is not in the registry, and every channel index (those of
  \<open>[0, MAX_CHANNELS)\<close> among them), \<open>AddVirtualDevice\<close> returns true and puts the device
  after the ones already there; the list that \<open>ListDevices\<close> then reports is the earlier
  list followed by the line \<open>name:channelIndex\<close>, so the entries are in insertion order;
  and \<open>ListDevices\<close> leaves the registry as it is.
\<close>

theorem add_new_name_then_list:
  assumes "\<not> name_exists nm g"
  shows "AddVirtualDevice nm ch g =
      (True, g @ [\<lparr>name = nm, channel = ch, handler = new_DuomicIOHandler ch\<rparr>]) \<and>
    fst (ListDevices (snd (AddVirtualDevice nm ch g))) =
      fst (ListDevices g) @ nm @ '':'' @ show_int ch @ [LF] \<and>
    snd (ListDevices (snd (AddVirtualDevice nm ch g))) = snd (AddVirtualDevice nm ch g)"
  using assms by (simp add: AddVirtualDevice_def ListDevices_snoc device_line_def)
    (simp add: ListDevices_def)

text \<open>C6 on the empty registry: \<open>studioMic\<close> on channel 3 is added and listed.\<close>

theorem add_new_name_then_list_witness:
  "AddVirtualDevice ''studioMic'' 3 [] =
      (True, [\<lparr>name = ''studioMic'', channel = 3, handler = new_DuomicIOHandler 3\<rparr>]) \<and>
    fst (ListDevices (snd (AddVirtualDevice ''studioMic'' 3 []))) = ''studioMic:3'' @ [LF]"
  using add_new_name_then_list [of "''studioMic''" "[]" 3]
  by (simp add: ListDevices_def device_line_def show_int_3)

text \<open>
  C7, as the code has it. For every name that is in the registry, \<open>AddVirtualDevice\<close>
  returns false and leaves the registry as it is, whatever the channel index. The command
  \<open>ADD name:channelIndex\<close> is answered by exactly \<open>ERROR:Device already exists\<close> and a line
  feed, the registry unchanged, when the name is one the command can carry (not empty, not
  starting with white space, without a colon) and the channel index is in
  \<open>[0, MAX_CHANNELS)\<close>: \<open>HandleCommand\<close> tests the name and the channel before it calls
  \<open>AddVirtualDevice\<close>.
\<close>

theorem add_existing_name_rejected:
  assumes "name_exists nm g"
  shows "AddVirtualDevice nm ch g = (False, g) \<and>
    (nm \<noteq> [] \<and> \<not> isspace (hd nm) \<and> CHR '':'' \<notin> set nm \<and> 0 \<le> ch \<and> ch < MAX_CHANNELS \<longrightarrow>
       HandleCommand (''ADD '' @ nm @ '':'' @ show_int ch) g =
         Some (''ERROR:Device already exists'' @ [LF], g))"
proof (intro conjI impI)
  show a: "AddVirtualDevice nm ch g = (False, g)"
    using assms by (simp add: AddVirtualDevice_def)
  assume w: "nm \<noteq> [] \<and> \<not> isspace (hd nm) \<and> CHR '':'' \<notin> set nm \<and> 0 \<le> ch \<and> ch < MAX_CHANNELS"
  then have "max INT_MIN (min INT_MAX ch) = ch"
    by (simp add: INT_MIN_def INT_MAX_def MAX_CHANNELS_def)
  with w a show "HandleCommand (''ADD '' @ nm @ '':'' @ show_int ch) g =
         Some (''ERROR:Device already exists'' @ [LF], g)"
    using parse_ADD [of nm ch g] by (simp add: Let_def)
qed

text \<open>C7 for \<open>ADD studioMic:3\<close> on a registry that holds \<open>studioMic\<close>.\<close>

theorem add_existing_name_rejected_witness:
  "HandleCommand ''ADD studioMic:3''
     [\<lparr>name = ''studioMic'', channel = 3, handler = new_DuomicIOHandler 3\<rparr>] =
   Some (''ERROR:Device already exists'' @ [LF],
     [\<lparr>name = ''studioMic'', channel = 3, handler = new_DuomicIOHandler 3\<rparr>])"
  using add_existing_name_rejected [of "''studioMic''"
      "[\<lparr>name = ''studioMic'', channel = 3, handler = new_DuomicIOHandler 3\<rparr>]" 3]
  by (simp add: show_int_3 isspace_def MAX_CHANNELS_def)

text \<open>
  C7 as stated fails for the command. With \<open>studioMic\<close> in the registry,
  \<open>ADD studioMic:99\<close> is answered by \<open>ERROR:Invalid channel\<close>. And the empty name gets into
  the registry from the line \<open>:5\<close> of the configuration file, which \<open>ReadConfig\<close> returns
  and \<open>AddVirtualDevice\<close> accepts; \<open>ADD :5\<close> is then answered by \<open>ERROR:Invalid name\<close>.
\<close>

theorem add_command_other_errors_counterexample:
  "name_exists ''studioMic''
     [\<lparr>name = ''studioMic'', channel = 3, handler = new_DuomicIOHandler 3\<rparr>] \<and>
   HandleCommand ''ADD studioMic:99''
     [\<lparr>name = ''studioMic'', channel = 3, handler = new_DuomicIOHandler 3\<rparr>] =
   Some (''ERROR:Invalid channel'' @ [LF],
     [\<lparr>name = ''studioMic'', channel = 3, handler = new_DuomicIOHandler 3\<rparr>]) \<and>
   ReadConfig (Some ('':5'' @ [LF])) = Inr [('''', 5)] \<and>
   AddVirtualDevice '''' 5 [] =
     (True, [\<lparr>name = '''', channel = 5, handler = new_DuomicIOHandler 5\<rparr>]) \<and>
   name_exists '''' [\<lparr>name = '''', channel = 5, handler = new_DuomicIOHandler 5\<rparr>] \<and>
   HandleCommand ''ADD :5'' [\<lparr>name = '''', channel = 5, handler = new_DuomicIOHandler 5\<rparr>] =
   Some (''ERROR:Invalid name'' @ [LF],
     [\<lparr>name = '''', channel = 5, handler = new_DuomicIOHandler 5\<rparr>])"
  by code_simp



text \<open>
  Apart from the lines that make \<open>std::stoi\<close> throw, \<open>ReadConfig\<close> does what the
  specification says: the default for an absent file and for a file none of whose lines
  gives an endpoint, else the endpoints of the lines, in the order of the file.
\<close>

lemma read_lines_spec:
  assumes "\<forall>line\<in>set lines. \<not> stoi_throws line"
  shows "read_lines lines devices = Inr (devices @ List.map_filter spec_config_entry lines)"
  using assms
proof (induction lines arbitrary: devices)
  case Nil
  then show ?case by (simp add: List.map_filter_simps)
next
  case (Cons line rest)
  then have rest: "\<And>ds. read_lines rest ds = Inr (ds @ List.map_filter spec_config_entry rest)"
    by simp
  from Cons.prems have nt: "\<not> stoi_throws line" by simp
  show ?case
  proof (cases "line = [] \<or> hd line = CHR ''#'' \<or> CHR '':'' \<notin> set line")
    case True
    then have "spec_config_entry line = None" by (simp add: spec_config_entry_def)
    with True rest show ?thesis by (auto simp: List.map_filter_simps)
  next
    case False
    with nt obtain ch where ch: "stoi (tl (dropWhile (\<lambda>c. c \<noteq> CHR '':'') line)) = Inr ch"
      by (auto simp: stoi_throws_def split: sum.splits)
    with False have "spec_config_entry line =
        (if 0 \<le> ch \<and> ch < MAX_CHANNELS then Some (takeWhile (\<lambda>c. c \<noteq> CHR '':'') line, ch) else None)"
      by (simp add: spec_config_entry_def)
    with False ch rest show ?thesis
      by (simp add: List.map_filter_simps)
  qed
qed

lemma ReadConfig_without_exception:
  assumes "\<forall>line\<in>set (getlines [] content). \<not> stoi_throws line"
  shows "ReadConfig (Some content) =
    Inr (if List.map_filter spec_config_entry (getlines [] content) = [] then default_devices
         else List.map_filter spec_config_entry (getlines [] content))"
  using read_lines_spec [OF assms, of "[]"] by (simp add: ReadConfig_def)

lemma ReadConfig_absent: "ReadConfig None = Inr default_devices"
  by (simp add: ReadConfig_def)

lemma ReadConfig_throws:
  assumes "read_lines (getlines [] content) [] = Inl e"
  shows "ReadConfig (Some content) = Inl e"
  using assms by (simp add: ReadConfig_def)


text \<open>
  C9 fails on a file with a line whose text after the colon has no number: \<open>std::stoi\<close>
  throws \<open>std::invalid_argument\<close>, nothing catches it, and \<open>ReadConfig\<close> returns no list
  at all, where the claim has the two default devices for a malformed file.
\<close>

theorem ReadConfig_not_a_number:
  "ReadConfig (Some (''mic:abc'' @ [LF])) = Inl invalid_argument"
  by code_simp


end
